theory Spec2Isabelle
  imports Main "HOL-Library.Sublist"
begin

section \<open>Go strings and the functions of package strings the servers call\<close>

text \<open>
  A Go string is a sequence of bytes, here a \<open>string\<close> (a list of 8-bit characters);
  text outside ASCII is written as its UTF-8 bytes.

  \<open>strings.TrimSpace\<close> removes the leading and the trailing white space of a string,
  where white space is what \<open>unicode.IsSpace\<close> accepts: the runes U+0009 to U+000D,
  U+0020, U+0085, U+00A0, U+1680, U+2000 to U+200A, U+2028, U+2029, U+202F, U+205F
  and U+3000. \<open>White_Space\<close> lists the UTF-8 encoding of each of them. Go decodes a
  rune from the left (\<open>range\<close> over the string) and from the right
  (\<open>utf8.DecodeLastRuneInString\<close>); a byte sequence that is not the shortest encoding
  of a rune decodes to U+FFFD, which is not white space. So the string begins (ends)
  with a white space rune exactly when one of the encodings below is a prefix
  (a suffix) of it.
\<close>

definition White_Space :: "string list" where
  "White_Space =
    [[CHR 0x09], [CHR 0x0A], [CHR 0x0B], [CHR 0x0C], [CHR 0x0D], [CHR 0x20],
     [CHR 0xC2, CHR 0x85], [CHR 0xC2, CHR 0xA0],
     [CHR 0xE1, CHR 0x9A, CHR 0x80],
     [CHR 0xE2, CHR 0x80, CHR 0x80], [CHR 0xE2, CHR 0x80, CHR 0x81],
     [CHR 0xE2, CHR 0x80, CHR 0x82], [CHR 0xE2, CHR 0x80, CHR 0x83],
     [CHR 0xE2, CHR 0x80, CHR 0x84], [CHR 0xE2, CHR 0x80, CHR 0x85],
     [CHR 0xE2, CHR 0x80, CHR 0x86], [CHR 0xE2, CHR 0x80, CHR 0x87],
     [CHR 0xE2, CHR 0x80, CHR 0x88], [CHR 0xE2, CHR 0x80, CHR 0x89],
     [CHR 0xE2, CHR 0x80, CHR 0x8A],
     [CHR 0xE2, CHR 0x80, CHR 0xA8], [CHR 0xE2, CHR 0x80, CHR 0xA9],
     [CHR 0xE2, CHR 0x80, CHR 0xAF],
     [CHR 0xE2, CHR 0x81, CHR 0x9F],
     [CHR 0xE3, CHR 0x80, CHR 0x80]]"

text \<open>
  \<open>strip tbl s\<close> removes from the front of \<open>s\<close>, again and again, the first entry of
  \<open>tbl\<close> that \<open>s\<close> begins with: the loop of \<open>strings.TrimLeftFunc\<close>, which steps over
  one rune at a time while the rune is white space.
\<close>

function strip :: "string list \<Rightarrow> string \<Rightarrow> string" where
  "strip tbl s =
     (case find (\<lambda>w. w \<noteq> [] \<and> prefix w s) tbl of
        None \<Rightarrow> s
      | Some w \<Rightarrow> strip tbl (drop (length w) s))"
  by pat_completeness auto
termination
proof (relation "measure (\<lambda>(tbl, s). length s)")
  show "wf (measure (\<lambda>(tbl, s). length s))" by simp
next
  fix tbl :: "string list" and s w :: string
  assume "find (\<lambda>w. w \<noteq> [] \<and> prefix w s) tbl = Some w"
  then have "w \<noteq> []" and "prefix w s"
    by (auto simp: find_Some_iff)
  then have "s \<noteq> []" by auto
  with \<open>w \<noteq> []\<close> show "((tbl, drop (length w) s), (tbl, s)) \<in> measure (\<lambda>(tbl, s). length s)"
    by simp
qed

declare strip.simps [simp del]

definition TrimLeftSpace :: "string \<Rightarrow> string" where
  "TrimLeftSpace s = strip White_Space s"

text \<open>The trailing white space: the same loop on the reversed string.\<close>

definition TrimRightSpace :: "string \<Rightarrow> string" where
  "TrimRightSpace s = rev (strip (map rev White_Space) (rev s))"

text \<open>\<open>strings.TrimSpace\<close>: the leading white space goes first, then the trailing.\<close>

definition TrimSpace :: "string \<Rightarrow> string" where
  "TrimSpace s = TrimRightSpace (TrimLeftSpace s)"

definition HasPrefix :: "string \<Rightarrow> string \<Rightarrow> bool" where
  "HasPrefix s p = prefix p s"

definition TrimPrefix :: "string \<Rightarrow> string \<Rightarrow> string" where
  "TrimPrefix s p = (if HasPrefix s p then drop (length p) s else s)"

section \<open>The echo server of networking/network_tcp.go\<close>

subsection \<open>The message handler\<close>

text \<open>
  The replies of \<open>processMessage\<close> that are not ASCII, as their UTF-8 bytes: the hint
  given for a bare \<open>echo\<close>, and the head of the reply to an unknown command.
\<close>

definition echo_usage :: string where
  "echo_usage =
    [CHR 0xE8, CHR 0xAF, CHR 0xB7, CHR 0xE6, CHR 0x8F, CHR 0x90, CHR 0xE4, CHR 0xBE,
     CHR 0x9B, CHR 0xE8, CHR 0xA6, CHR 0x81, CHR 0xE5, CHR 0x9B, CHR 0x9E, CHR 0xE6,
     CHR 0x98, CHR 0xBE, CHR 0xE7, CHR 0x9A, CHR 0x84, CHR 0xE5, CHR 0x86, CHR 0x85,
     CHR 0xE5, CHR 0xAE, CHR 0xB9, CHR 0xEF, CHR 0xBC, CHR 0x8C, CHR 0xE6, CHR 0xA0,
     CHR 0xBC, CHR 0xE5, CHR 0xBC, CHR 0x8F, CHR 0x3A, CHR 0x20, CHR 0x65, CHR 0x63,
     CHR 0x68, CHR 0x6F, CHR 0x3A, CHR 0x3C, CHR 0xE5, CHR 0x86, CHR 0x85, CHR 0xE5,
     CHR 0xAE, CHR 0xB9, CHR 0x3E]"

definition unknown_command :: string where
  "unknown_command =
    [CHR 0xE6, CHR 0x9C, CHR 0xAA, CHR 0xE7, CHR 0x9F, CHR 0xA5, CHR 0xE5, CHR 0x91,
     CHR 0xBD, CHR 0xE4, CHR 0xBB, CHR 0xA4, CHR 0x3A, CHR 0x20]"

text \<open>
  \<open>TCPServer.processMessage\<close>. The clock is a parameter: \<open>now_Format layout\<close> is what
  \<open>time.Now().Format(layout)\<close> returns at the call. The \<open>switch\<close> takes the first case
  that equals the trimmed message, and its \<open>default\<close> otherwise.
\<close>

definition processMessage :: "(string \<Rightarrow> string) \<Rightarrow> string \<Rightarrow> string" where
  "processMessage now_Format message0 =
     (let message = TrimSpace message0 in
      if message = ''ping'' then ''pong''
      else if message = ''time'' then now_Format ''2006-01-02 15:04:05''
      else if message = ''date'' then now_Format ''2006-01-02''
      else if message = ''quit'' then ''BYE''
      else if message = ''echo'' then echo_usage
      else if HasPrefix message ''echo:'' then TrimPrefix message ''echo:''
      else unknown_command @ message)"

text \<open>A clock for the examples: asked for the time in a layout, it shows the layout.\<close>

definition layout_clock :: "string \<Rightarrow> string" where
  "layout_clock layout = layout"

subsection \<open>The server, its accept loop and its shutdown\<close>

text \<open>
  A connection (\<open>net.Conn\<close>) and a listener (\<open>net.Listener\<close>) are identified by a
  number. The record holds the fields of the struct \<open>TCPServer\<close> (\<open>address\<close>,
  \<open>listener\<close> with \<open>None\<close> for \<open>nil\<close>, and the counter of the wait group \<open>wg\<close>)
  and the state of what it works on: the listeners and connections that have been
  closed, the connections whose \<open>handleConnection\<close> is running, what has been written
  to each connection, and the errors logged by the accept loop.
\<close>

record TCPServer =
  address :: string
  listener :: "nat option"
  wg :: int
  closed_listeners :: "nat set"
  active :: "nat list"
  closed_conns :: "nat set"
  written :: "nat \<Rightarrow> string list"
  logged :: "string list"

definition NewTCPServer :: "string \<Rightarrow> TCPServer" where
  "NewTCPServer addr =
     \<lparr>address = addr, listener = None, wg = 0, closed_listeners = {}, active = [],
      closed_conns = {}, written = (\<lambda>c. []), logged = []\<rparr>"

text \<open>
  An error value: it either implements \<open>net.Error\<close>, and then the flag is what its
  \<open>Temporary()\<close> returns, or it does not. \<open>text_of\<close> is the text of the error.
\<close>

datatype error = NetError bool (text_of: string) | PlainError (text_of: string)

text \<open>The test \<open>netErr, ok := err.(net.Error); ok && netErr.Temporary()\<close>.\<close>

fun is_temporary :: "error \<Rightarrow> bool" where
  "is_temporary (NetError t m) = t"
| "is_temporary (PlainError m) = False"

text \<open>What \<open>listener.Accept()\<close> returns: a connection or an error.\<close>

datatype accept = Conn nat | Err error

text \<open>
  How a call stands after the inputs it was given: it has returned a value, or it is
  blocked (in \<open>Accept\<close>, or in \<open>wg.Wait\<close>) and has not returned.
\<close>

datatype 'a outcome = Returned 'a | Blocked

definition temporary_error :: string where
  "temporary_error =
    [CHR 0xE4, CHR 0xB8, CHR 0xB4, CHR 0xE6, CHR 0x97, CHR 0xB6, CHR 0xE9, CHR 0x94,
     CHR 0x99, CHR 0xE8, CHR 0xAF, CHR 0xAF, CHR 0x3A, CHR 0x20]"

definition accept_failed :: string where
  "accept_failed =
    [CHR 0xE6, CHR 0x8E, CHR 0xA5, CHR 0xE5, CHR 0x8F, CHR 0x97, CHR 0xE8, CHR 0xBF,
     CHR 0x9E, CHR 0xE6, CHR 0x8E, CHR 0xA5, CHR 0xE5, CHR 0xA4, CHR 0xB1, CHR 0xE8,
     CHR 0xB4, CHR 0xA5, CHR 0x3A, CHR 0x20]"

definition listen_failed :: string where
  "listen_failed =
    [CHR 0xE5, CHR 0x88, CHR 0x9B, CHR 0xE5, CHR 0xBB, CHR 0xBA, CHR 0xE7, CHR 0x9B,
     CHR 0x91, CHR 0xE5, CHR 0x90, CHR 0xAC, CHR 0xE5, CHR 0x99, CHR 0xA8, CHR 0xE5,
     CHR 0xA4, CHR 0xB1, CHR 0xE8, CHR 0xB4, CHR 0xA5, CHR 0x3A, CHR 0x20]"

text \<open>
  The accept loop of \<open>TCPServer.Start\<close> (the \<open>for\<close> after the listener is created), run
  on the results that \<open>Accept\<close> returns one after the other. Each turn first tests
  \<open>s.listener == nil\<close> and breaks, so that \<open>Start\<close> returns \<open>nil\<close>; a temporary error is
  logged and the loop continues; any other error is returned, wrapped by
  \<open>fmt.Errorf\<close>; a connection is counted in \<open>wg\<close> and handed to a new goroutine. When
  the results are used up the loop is blocked in \<open>Accept\<close>. The value returned is the
  text of the error, \<open>None\<close> for \<open>nil\<close>.
\<close>

fun accept_loop :: "accept list \<Rightarrow> TCPServer \<Rightarrow> string option outcome \<times> TCPServer" where
  "accept_loop [] s = (if listener s = None then (Returned None, s) else (Blocked, s))"
| "accept_loop (Err e # rs) s =
     (if listener s = None then (Returned None, s)
      else if is_temporary e
        then accept_loop rs (s\<lparr>logged := logged s @ [temporary_error @ text_of e]\<rparr>)
        else (Returned (Some (accept_failed @ text_of e)), s))"
| "accept_loop (Conn c # rs) s =
     (if listener s = None then (Returned None, s)
      else accept_loop rs (s\<lparr>wg := wg s + 1, active := active s @ [c]\<rparr>))"

text \<open>
  \<open>TCPServer.Start\<close>: \<open>net.Listen\<close> gives an error, which is returned wrapped (the
  listener it gives with an error is \<open>nil\<close>), or a listener, with which the loop runs.
\<close>

definition Start :: "error + nat \<Rightarrow> accept list \<Rightarrow> TCPServer \<Rightarrow> string option outcome \<times> TCPServer" where
  "Start listen rs s =
     (case listen of
        Inl e \<Rightarrow> (Returned (Some (listen_failed @ text_of e)), s\<lparr>listener := None\<rparr>)
      | Inr l \<Rightarrow> accept_loop rs (s\<lparr>listener := Some l\<rparr>))"

text \<open>
  \<open>TCPServer.handleConnection\<close> answers each line it scans with \<open>processMessage\<close> and a
  newline; each call reads the clock anew, so a line comes with the clock of its call.
  When the scanner has no more lines the deferred function closes the connection and
  calls \<open>wg.Done()\<close>. A handler is started by \<open>Start\<close> only, after \<open>wg.Add(1)\<close>, so the
  counter is positive when \<open>Done\<close> runs; the end of a handler that is not running is
  no event, and changes nothing.
\<close>

definition handleConnection_exit :: "nat \<Rightarrow> TCPServer \<Rightarrow> TCPServer" where
  "handleConnection_exit c s =
     (if c \<in> set (active s)
      then s\<lparr>closed_conns := insert c (closed_conns s), wg := wg s - 1,
             active := remove1 c (active s)\<rparr>
      else s)"

fun handleConnection :: "nat \<Rightarrow> ((string \<Rightarrow> string) \<times> string) list \<Rightarrow> TCPServer \<Rightarrow> TCPServer" where
  "handleConnection c [] s = handleConnection_exit c s"
| "handleConnection c ((now_Format, message) # rest) s =
     handleConnection c rest
       (s\<lparr>written := (written s)(c := written s c @ [processMessage now_Format message @ [CHR 0x0A]])\<rparr>)"

text \<open>
  \<open>s.wg.Wait()\<close> returns when the counter is zero. While it waits, other goroutines
  run: \<open>exits\<close> lists the connections whose handlers finish meanwhile (their clients
  have hung up), in that order. With the counter still positive after them, the call
  stays blocked.
\<close>

fun Wait :: "nat list \<Rightarrow> TCPServer \<Rightarrow> TCPServer outcome" where
  "Wait [] s = (if wg s = 0 then Returned s else Blocked)"
| "Wait (c # exits) s = (if wg s = 0 then Returned s else Wait exits (handleConnection_exit c s))"

text \<open>
  \<open>TCPServer.Shutdown\<close>, in its two parts: closing the listener, and waiting. It has no
  parameter: no context and no deadline.
\<close>

definition closeListener :: "TCPServer \<Rightarrow> TCPServer" where
  "closeListener s =
     (case listener s of
        None \<Rightarrow> s
      | Some l \<Rightarrow> s\<lparr>closed_listeners := insert l (closed_listeners s), listener := None\<rparr>)"

definition Shutdown :: "nat list \<Rightarrow> TCPServer \<Rightarrow> TCPServer outcome" where
  "Shutdown exits s = Wait exits (closeListener s)"

section \<open>The chat server with one send queue for each client\<close>

text \<open>
  The second \<open>TCPServer\<close> of the repository (the TCP chapter of the networking guide).
  Its registry \<open>clients\<close> maps a name to a \<open>*Client\<close>. A client is entered under one
  name only and each client has a channel of its own, so no two entries share a
  channel: the registry is modelled as a map from names to client values, the content
  of the buffered channel \<open>sendChan\<close> (capacity 100, oldest message first) being part
  of the value. \<open>closed\<close> holds the connections on which \<open>Close\<close> has been called.
\<close>

record Client =
  conn :: nat
  name :: string
  sendChan :: "string list"

record TCPServer_chat =
  address_chat :: string
  clients :: "string \<rightharpoonup> Client"
  closed :: "nat set"

definition NewTCPServer_chat :: "string \<Rightarrow> TCPServer_chat" where
  "NewTCPServer_chat addr = \<lparr>address_chat = addr, clients = Map.empty, closed = {}\<rparr>"

definition sendChan_cap :: nat where
  "sendChan_cap = 100"

text \<open>
  A send on a buffered channel blocks while the buffer is full (\<open>None\<close>). The
  \<open>select\<close> of \<open>broadcast\<close> has a \<open>default\<close> branch that does nothing, taken when the send
  cannot proceed.
\<close>

definition chan_send :: "nat \<Rightarrow> string \<Rightarrow> string list \<Rightarrow> string list option" where
  "chan_send cap message buf = (if length buf < cap then Some (buf @ [message]) else None)"

definition select_send :: "string \<Rightarrow> Client \<Rightarrow> Client" where
  "select_send message client =
     (case chan_send sendChan_cap message (sendChan client) of
        Some buf \<Rightarrow> client\<lparr>sendChan := buf\<rparr>
      | None \<Rightarrow> client)"

text \<open>
  \<open>TCPServer.broadcast\<close> ranges over all entries of \<open>clients\<close>, in no fixed order; each
  turn touches the channel of its own entry only, so the order does not show.
\<close>

definition broadcast :: "string \<Rightarrow> TCPServer_chat \<Rightarrow> TCPServer_chat" where
  "broadcast message s = s\<lparr>clients := (\<lambda>n. map_option (select_send message) (clients s n))\<rparr>"

text \<open>
  The two sections that hold the write lock: the insertion, in \<open>handleConnection\<close>, and
  the deletion, in \<open>readMessages\<close>.
\<close>

definition register :: "Client \<Rightarrow> TCPServer_chat \<Rightarrow> TCPServer_chat" where
  "register client s = s\<lparr>clients := (clients s)(name client \<mapsto> client)\<rparr>"

definition deregister :: "string \<Rightarrow> TCPServer_chat \<Rightarrow> TCPServer_chat" where
  "deregister n s = s\<lparr>clients := (clients s)(n := None)\<rparr>"

definition joined :: string where
  "joined =
    [CHR 0x20, CHR 0xE5, CHR 0x8A, CHR 0xA0, CHR 0xE5, CHR 0x85, CHR 0xA5, CHR 0xE8,
     CHR 0x81, CHR 0x8A, CHR 0xE5, CHR 0xA4, CHR 0xA9, CHR 0xE5, CHR 0xAE, CHR 0xA4, CHR 0x0A]"

definition left :: string where
  "left =
    [CHR 0x20, CHR 0xE7, CHR 0xA6, CHR 0xBB, CHR 0xE5, CHR 0xBC, CHR 0x80, CHR 0xE8,
     CHR 0x81, CHR 0x8A, CHR 0xE5, CHR 0xA4, CHR 0xA9, CHR 0xE5, CHR 0xAE, CHR 0xA4, CHR 0x0A]"

text \<open>
  \<open>TCPServer.handleConnection\<close>, up to the start of the reader and the writer: the
  client is made with an empty channel, named by the trimmed first line (an error of
  that read is ignored, the line is then what had arrived), entered in the registry
  and announced to every entry. The result is the client that \<open>readMessages\<close> is
  started with. The prompt written to the connection and the lines of the log are
  left out, here and below.
\<close>

definition handleConnection_chat :: "nat \<Rightarrow> string \<Rightarrow> TCPServer_chat \<Rightarrow> Client \<times> TCPServer_chat" where
  "handleConnection_chat c line s =
     (let client = \<lparr>conn = c, name = TrimSpace line, sendChan = []\<rparr>
      in (client, broadcast (name client @ joined) (register client s)))"

text \<open>What \<open>reader.ReadString\<close> returns: a line with its newline, or an error.\<close>

datatype read = Line string | ReadErr

text \<open>
  One turn of the loop of \<open>TCPServer.readMessages\<close>, which reads the \<open>conn\<close> and the
  \<open>name\<close> of its client; the flag tells whether the loop goes on. On an error the entry
  of the name is deleted and the departure announced. On \<open>/quit\<close> the connection is
  closed and the function returns. Any other line is broadcast.
\<close>

definition readMessages_step :: "Client \<Rightarrow> read \<Rightarrow> TCPServer_chat \<Rightarrow> bool \<times> TCPServer_chat" where
  "readMessages_step client r s =
     (case r of
        ReadErr \<Rightarrow> (False, broadcast (name client @ left) (deregister (name client) s))
      | Line message0 \<Rightarrow>
          (let message = TrimSpace message0 in
           if message = ''/quit'' then (False, s\<lparr>closed := insert (conn client) (closed s)\<rparr>)
           else (True, broadcast (''['' @ name client @ '']: '' @ message @ [CHR 0x0A]) s)))"

fun readMessages :: "Client \<Rightarrow> read list \<Rightarrow> TCPServer_chat \<Rightarrow> TCPServer_chat" where
  "readMessages client [] s = s"
| "readMessages client (r # rs) s =
     (case readMessages_step client r s of
        (True, s') \<Rightarrow> readMessages client rs s'
      | (False, s') \<Rightarrow> s')"

text \<open>
  The accept loop of this server's \<open>Start\<close>: every error is logged and the loop
  continues; there is no \<open>return\<close> and no \<open>break\<close> in it. The result is whether the
  function has returned, the connections handed to \<open>handleConnection\<close> and the lines
  logged. \<open>Start\<close> returns only when \<open>net.Listen\<close> fails, with that error.
\<close>

fun accept_loop_chat :: "accept list \<Rightarrow> nat list \<times> string list \<Rightarrow> string option outcome \<times> nat list \<times> string list" where
  "accept_loop_chat [] (spawned, lg) = (Blocked, spawned, lg)"
| "accept_loop_chat (Err e # rs) (spawned, lg) =
     accept_loop_chat rs (spawned, lg @ [accept_failed @ text_of e])"
| "accept_loop_chat (Conn c # rs) (spawned, lg) = accept_loop_chat rs (spawned @ [c], lg)"

definition Start_chat :: "error + nat \<Rightarrow> accept list \<Rightarrow> string option outcome \<times> nat list \<times> string list" where
  "Start_chat listen rs =
     (case listen of
        Inl e \<Rightarrow> (Returned (Some (text_of e)), [], [])
      | Inr l \<Rightarrow> accept_loop_chat rs ([], []))"

text \<open>
  The operations on the registry, as a caller sees them: an insertion (by
  \<open>handleConnection\<close>) and a deletion (by \<open>readMessages\<close>).
\<close>

datatype registry_op = Register Client | Deregister string

fun apply_op :: "TCPServer_chat \<Rightarrow> registry_op \<Rightarrow> TCPServer_chat" where
  "apply_op s (Register client) = register client s"
| "apply_op s (Deregister n) = deregister n s"

text \<open>
  The words of the specification: the identity has been registered and not yet
  deregistered, that is, some registration of it has no deregistration of it after it.
\<close>

definition registered_not_deregistered :: "registry_op list \<Rightarrow> string \<Rightarrow> bool" where
  "registered_not_deregistered ops n =
     (\<exists>pre client post. ops = pre @ Register client # post \<and> name client = n \<and>
        Deregister n \<notin> set post)"

section \<open>The chat server of networking/network_tcp.go\<close>

text \<open>
  \<open>ChatServer\<close> keeps a map from connections to user names, and one buffered channel
  \<open>broadcast\<close> (capacity 10) that \<open>handleBroadcast\<close> drains, writing each message to
  every registered connection. It has no queue for each client: a message goes from the
  channel straight to the connections, and \<open>written_cs\<close> records what was written to
  each.

  The mutex \<open>mu\<close> is part of the state. \<open>readers\<close> counts the read locks held:
  \<open>handleBroadcast\<close> takes a read lock in every turn of its loop and defers the unlock
  to the return of the function, which the loop never reaches (the channel is never
  closed). \<open>Lock\<close> blocks while a read lock is held, and a goroutine blocked in \<open>Lock\<close>
  (\<open>writers_waiting\<close> counts them) blocks every later \<open>RLock\<close>. The sections under the
  write lock are single steps, so no write lock is held between steps.
\<close>

record ChatServer =
  clients_cs :: "nat \<rightharpoonup> string"
  broadcast_cs :: "string list"
  readers :: nat
  writers_waiting :: nat
  written_cs :: "nat \<Rightarrow> string list"
  closed_cs :: "nat set"

definition NewChatServer :: ChatServer where
  "NewChatServer =
     \<lparr>clients_cs = Map.empty, broadcast_cs = [], readers = 0, writers_waiting = 0,
      written_cs = (\<lambda>c. []), closed_cs = {}\<rparr>"

definition broadcast_cap :: nat where
  "broadcast_cap = 10"

text \<open>
  A step of a goroutine either is done, with its result, or leaves the goroutine
  blocked, in the state given. \<open>and_then\<close> runs the next step of the same goroutine
  after a step that is done.
\<close>

datatype 'a attempt = Done 'a | Stuck ChatServer

fun and_then :: "'a attempt \<Rightarrow> ('a \<Rightarrow> 'b attempt) \<Rightarrow> 'b attempt" where
  "and_then (Done x) f = f x"
| "and_then (Stuck cs) f = Stuck cs"

text \<open>\<open>cs.broadcast <- msg\<close>: blocked while the buffer is full.\<close>

definition send_broadcast :: "string \<Rightarrow> ChatServer \<Rightarrow> ChatServer attempt" where
  "send_broadcast msg cs =
     (case chan_send broadcast_cap msg (broadcast_cs cs) of
        Some buf \<Rightarrow> Done (cs\<lparr>broadcast_cs := buf\<rparr>)
      | None \<Rightarrow> Stuck cs)"

text \<open>
  A section \<open>cs.mu.Lock(); ...; cs.mu.Unlock()\<close> whose body changes the state by \<open>f\<close>.
\<close>

definition locked :: "(ChatServer \<Rightarrow> ChatServer) \<Rightarrow> ChatServer \<Rightarrow> ChatServer attempt" where
  "locked f cs =
     (if readers cs = 0 then Done (f cs)
      else Stuck (cs\<lparr>writers_waiting := writers_waiting cs + 1\<rparr>))"

text \<open>
  One turn of the loop of \<open>ChatServer.handleBroadcast\<close>: blocked while the channel is
  empty; otherwise the oldest message is taken, a read lock is taken (blocked when a
  writer waits) and kept, and the message and a newline are written to every
  registered connection (a write to a closed connection fails, and the error is
  ignored).
\<close>

definition handleBroadcast_step :: "ChatServer \<Rightarrow> ChatServer attempt" where
  "handleBroadcast_step cs =
     (case broadcast_cs cs of
        [] \<Rightarrow> Stuck cs
      | msg # rest \<Rightarrow>
          if 0 < writers_waiting cs then Stuck (cs\<lparr>broadcast_cs := rest\<rparr>)
          else Done (cs\<lparr>broadcast_cs := rest, readers := readers cs + 1,
                      written_cs := (\<lambda>c. if clients_cs cs c \<noteq> None \<and> c \<notin> closed_cs cs
                                            then written_cs cs c @ [msg @ [CHR 0x0A]]
                                            else written_cs cs c)\<rparr>))"

definition system_tag :: string where
  "system_tag = [CHR 0x5B, CHR 0xE7, CHR 0xB3, CHR 0xBB, CHR 0xE7, CHR 0xBB, CHR 0x9F, CHR 0x5D, CHR 0x20]"

definition joined_cs :: string where
  "joined_cs =
    [CHR 0x20, CHR 0xE5, CHR 0x8A, CHR 0xA0, CHR 0xE5, CHR 0x85, CHR 0xA5, CHR 0xE8,
     CHR 0x81, CHR 0x8A, CHR 0xE5, CHR 0xA4, CHR 0xA9]"

definition left_cs :: string where
  "left_cs =
    [CHR 0x20, CHR 0xE7, CHR 0xA6, CHR 0xBB, CHR 0xE5, CHR 0xBC, CHR 0x80, CHR 0xE8,
     CHR 0x81, CHR 0x8A, CHR 0xE5, CHR 0xA4, CHR 0xA9]"

text \<open>
  \<open>ChatServer.handleChatClient\<close>, in the steps at which it can block: the registration
  under the write lock, the announcement, one turn of the loop over the scanned lines
  (the scanner has taken the newline off; the flag tells whether the loop goes on), and
  the departure: the deletion under the write lock, the announcement, and the deferred
  \<open>Close\<close>.
\<close>

definition register_cs :: "nat \<Rightarrow> string \<Rightarrow> ChatServer \<Rightarrow> ChatServer attempt" where
  "register_cs c username cs = locked (\<lambda>cs. cs\<lparr>clients_cs := (clients_cs cs)(c \<mapsto> username)\<rparr>) cs"

definition announce_cs :: "string \<Rightarrow> ChatServer \<Rightarrow> ChatServer attempt" where
  "announce_cs username cs = send_broadcast (system_tag @ username @ joined_cs) cs"

definition handleChatClient_line :: "string \<Rightarrow> string \<Rightarrow> ChatServer \<Rightarrow> (bool \<times> ChatServer) attempt" where
  "handleChatClient_line username msg cs =
     (if msg = ''/quit'' then Done (False, cs)
      else and_then (send_broadcast (''['' @ username @ ''] '' @ msg) cs) (\<lambda>cs1. Done (True, cs1)))"

definition deregister_cs :: "nat \<Rightarrow> ChatServer \<Rightarrow> ChatServer attempt" where
  "deregister_cs c cs = locked (\<lambda>cs. cs\<lparr>clients_cs := (clients_cs cs)(c := None)\<rparr>) cs"

definition leave_cs :: "nat \<Rightarrow> string \<Rightarrow> ChatServer \<Rightarrow> ChatServer attempt" where
  "leave_cs c username cs =
     and_then (deregister_cs c cs) (\<lambda>cs1.
     and_then (send_broadcast (system_tag @ username @ left_cs) cs1) (\<lambda>cs2.
     Done (cs2\<lparr>closed_cs := insert c (closed_cs cs2)\<rparr>)))"

section \<open>The heartbeat server\<close>

text \<open>
  Time is counted in nanoseconds, as \<open>time.Duration\<close> does; a point in time is the
  number of nanoseconds since some origin. \<open>ClientInfo\<close> has a third field, the channel
  \<open>heartbeat\<close>, which no function uses.
\<close>

definition heartbeatInterval :: int where
  "heartbeatInterval = 30 * 1000000000"

definition heartbeatTimeout :: int where
  "heartbeatTimeout = 90 * 1000000000"

record ClientInfo =
  lastSeen :: int
  isActive :: bool

record HeartbeatServer =
  listeners :: "nat \<rightharpoonup> ClientInfo"
  closed_hb :: "nat set"
  written_hb :: "nat \<Rightarrow> string list"

definition NewHeartbeatServer :: HeartbeatServer where
  "NewHeartbeatServer = \<lparr>listeners = Map.empty, closed_hb = {}, written_hb = (\<lambda>c. [])\<rparr>"

text \<open>
  \<open>HeartbeatServer.handleConnection\<close>: the registration at time \<open>now\<close>, and the turns of
  its loop. A failed read (the deadline of \<open>heartbeatTimeout\<close> has passed, or the peer
  is gone, or the connection has been closed) deletes the entry and closes the
  connection. A read that returns data sets \<open>lastSeen\<close> of the client to the time of
  the read, through the pointer the handler holds: the entry of the registry, if the
  monitor has not deleted it; and \<open>PING\<close> is answered by \<open>PONG\<close>.
\<close>

definition hb_register :: "nat \<Rightarrow> int \<Rightarrow> HeartbeatServer \<Rightarrow> HeartbeatServer" where
  "hb_register c now s = s\<lparr>listeners := (listeners s)(c \<mapsto> \<lparr>lastSeen = now, isActive = True\<rparr>)\<rparr>"

definition hb_read_error :: "nat \<Rightarrow> HeartbeatServer \<Rightarrow> HeartbeatServer" where
  "hb_read_error c s = s\<lparr>listeners := (listeners s)(c := None), closed_hb := insert c (closed_hb s)\<rparr>"

definition hb_read_data :: "nat \<Rightarrow> int \<Rightarrow> string \<Rightarrow> HeartbeatServer \<Rightarrow> HeartbeatServer" where
  "hb_read_data c now bytes s =
     (let s1 = s\<lparr>listeners := (case listeners s c of
                                  None \<Rightarrow> listeners s
                                | Some client \<Rightarrow> (listeners s)(c \<mapsto> client\<lparr>lastSeen := now, isActive := True\<rparr>))\<rparr>
      in if bytes = ''PING'' \<and> c \<notin> closed_hb s1
         then s1\<lparr>written_hb := (written_hb s1)(c := written_hb s1 c @ [''PONG''])\<rparr>
         else s1)"

text \<open>
  One sweep of \<open>HeartbeatServer.heartbeatChecker\<close>, that is, one tick of its ticker.
  The loop reads the clock for each entry (\<open>time.Since\<close>): \<open>now c\<close> is the time read when
  the entry of \<open>c\<close> is examined. An entry seen longer ago than \<open>heartbeatTimeout\<close> is
  deleted and its connection closed.
\<close>

definition timed_out :: "(nat \<Rightarrow> int) \<Rightarrow> HeartbeatServer \<Rightarrow> nat \<Rightarrow> bool" where
  "timed_out now s c =
     (case listeners s c of
        None \<Rightarrow> False
      | Some client \<Rightarrow> now c - lastSeen client > heartbeatTimeout)"

definition heartbeatChecker_sweep :: "(nat \<Rightarrow> int) \<Rightarrow> HeartbeatServer \<Rightarrow> HeartbeatServer" where
  "heartbeatChecker_sweep now s =
     s\<lparr>listeners := (\<lambda>c. if timed_out now s c then None else listeners s c),
       closed_hb := closed_hb s \<union> {c. timed_out now s c}\<rparr>"

text \<open>
  What happens to the server, one event after the other: a connection is accepted,
  data arrives on a connection, a read fails, the ticker ticks.
\<close>

datatype hb_event = Connect nat int | Data nat int string | ReadError nat | Tick "nat \<Rightarrow> int"

fun hb_step :: "HeartbeatServer \<Rightarrow> hb_event \<Rightarrow> HeartbeatServer" where
  "hb_step s (Connect c now) = hb_register c now s"
| "hb_step s (Data c now bytes) = hb_read_data c now bytes s"
| "hb_step s (ReadError c) = hb_read_error c s"
| "hb_step s (Tick now) = heartbeatChecker_sweep now s"

definition hb_run :: "hb_event list \<Rightarrow> HeartbeatServer \<Rightarrow> HeartbeatServer" where
  "hb_run evs s = foldl hb_step s evs"

text \<open>
  The events of a connection \<open>c\<close>, which is accepted once: \<open>silent c evs\<close> when no
  data arrives on \<open>c\<close>; \<open>connected c evs\<close> when no read of \<open>c\<close> fails (and in neither is
  \<open>c\<close> accepted anew). \<open>fresh_at_ticks c t evs\<close>: at every tick, the last data of \<open>c\<close>
  (at first \<open>t\<close>) is at most \<open>heartbeatTimeout\<close> old, by the clock read for \<open>c\<close> in that
  sweep.
\<close>

fun about :: "nat \<Rightarrow> hb_event \<Rightarrow> bool" where
  "about c (Connect c' now) = (c' = c)"
| "about c (Data c' now bytes) = (c' = c)"
| "about c (ReadError c') = False"
| "about c (Tick now) = False"

definition silent :: "nat \<Rightarrow> hb_event list \<Rightarrow> bool" where
  "silent c evs = (\<not> list_ex (about c) evs)"

fun fails :: "nat \<Rightarrow> hb_event \<Rightarrow> bool" where
  "fails c (Connect c' now) = (c' = c)"
| "fails c (Data c' now bytes) = False"
| "fails c (ReadError c') = (c' = c)"
| "fails c (Tick now) = False"

definition connected :: "nat \<Rightarrow> hb_event list \<Rightarrow> bool" where
  "connected c evs = (\<not> list_ex (fails c) evs)"

fun fresh_at_ticks :: "nat \<Rightarrow> int \<Rightarrow> hb_event list \<Rightarrow> bool" where
  "fresh_at_ticks c t [] = True"
| "fresh_at_ticks c t (Tick now # evs) = (now c - t \<le> heartbeatTimeout \<and> fresh_at_ticks c t evs)"
| "fresh_at_ticks c t (Data c' now bytes # evs) = fresh_at_ticks c (if c' = c then now else t) evs"
| "fresh_at_ticks c t (e # evs) = fresh_at_ticks c t evs"

section \<open>The scenarios of the specification\<close>

text \<open>
  Scenario A on the server with send queues: alice (connection 1) and bob
  (connection 2) have connected and given their names. \<open>alice\<close> is the client that
  \<open>readMessages\<close> of connection 1 runs with.
\<close>

definition alice :: Client where
  "alice = fst (handleConnection_chat 1 ''alice\<newline>'' (NewTCPServer_chat '':8080''))"

definition two_clients :: TCPServer_chat where
  "two_clients =
     snd (handleConnection_chat 2 ''bob\<newline>''
       (snd (handleConnection_chat 1 ''alice\<newline>'' (NewTCPServer_chat '':8080''))))"

text \<open>
  Scenario A on \<open>ChatServer\<close>, in an order of events in which both clients get
  registered: both register and announce themselves before \<open>handleBroadcast\<close> takes its
  first message; alice then sends \<open>hi\<close>, and \<open>handleBroadcast\<close> takes the three messages.
\<close>

definition two_clients_cs :: "ChatServer attempt" where
  "two_clients_cs =
     and_then (register_cs 1 ''alice'' NewChatServer) (\<lambda>cs1.
     and_then (announce_cs ''alice'' cs1) (\<lambda>cs2.
     and_then (register_cs 2 ''bob'' cs2) (\<lambda>cs3.
     announce_cs ''bob'' cs3)))"

definition scenario_A_cs :: "ChatServer attempt" where
  "scenario_A_cs =
     and_then two_clients_cs (\<lambda>cs4.
     and_then (handleChatClient_line ''alice'' ''hi'' cs4) (\<lambda>(go_on, cs5).
     and_then (handleBroadcast_step cs5) (\<lambda>cs6.
     and_then (handleBroadcast_step cs6) (\<lambda>cs7.
     handleBroadcast_step cs7))))"

text \<open>What has been written to a connection, for a scenario that has come to its end.\<close>

definition written_to :: "nat \<Rightarrow> ChatServer \<Rightarrow> string list attempt" where
  "written_to c cs = Done (written_cs cs c)"

text \<open>A registry whose one client, bob, has a full send queue.\<close>

definition full_buffer :: TCPServer_chat where
  "full_buffer =
     register \<lparr>conn = 2, name = ''bob'', sendChan = replicate 100 ''x''\<rparr> (NewTCPServer_chat '':8080'')"

text \<open>
  The echo server listening on listener 1, with one connection, 7, accepted and being
  handled.
\<close>

definition serving :: TCPServer where
  "serving = snd (Start (Inr 1) [Conn 7] (NewTCPServer '':8080''))"

text \<open>
  Scenario B on the heartbeat server: connection 1 is accepted at time 0 and the
  ticker, started at time 0, ticks every 30 seconds. In \<open>ticks_only\<close> the connection
  sends nothing for 120 seconds; in \<open>ticks_and_ping\<close> it sends \<open>PING\<close> after 50 seconds.
\<close>

definition one_client :: HeartbeatServer where
  "one_client = hb_step NewHeartbeatServer (Connect 1 0)"

definition ticks_only :: "hb_event list" where
  "ticks_only =
     [Tick (\<lambda>c. 30000000000), Tick (\<lambda>c. 60000000000), Tick (\<lambda>c. 90000000000),
      Tick (\<lambda>c. 120000000000)]"

definition ticks_and_ping :: "hb_event list" where
  "ticks_and_ping =
     [Tick (\<lambda>c. 30000000000), Data 1 50000000000 ''PING'', Tick (\<lambda>c. 60000000000),
      Tick (\<lambda>c. 90000000000), Tick (\<lambda>c. 120000000000)]"

section \<open>Properties of the string functions\<close>

lemma strip_None: "find (\<lambda>w. w \<noteq> [] \<and> prefix w s) tbl = None \<Longrightarrow> strip tbl s = s"
  by (subst strip.simps) simp

lemma strip_Some:
  "find (\<lambda>w. w \<noteq> [] \<and> prefix w s) tbl = Some w \<Longrightarrow> strip tbl s = strip tbl (drop (length w) s)"
  by (subst strip.simps) simp

lemma strip_Nil: "strip tbl [] = []"
proof -
  have "find (\<lambda>w. w \<noteq> [] \<and> prefix w []) tbl = None"
    by (simp add: find_None_iff)
  then show ?thesis by (rule strip_None)
qed

lemma find_entry:
  assumes pf: "\<forall>a\<in>set tbl. \<forall>b\<in>set tbl. prefix a b \<longrightarrow> a = b"
    and w: "w \<in> set tbl" "w \<noteq> []" "prefix w s"
  shows "find (\<lambda>v. v \<noteq> [] \<and> prefix v s) tbl = Some w"
proof (cases "find (\<lambda>v. v \<noteq> [] \<and> prefix v s) tbl")
  case None
  with w show ?thesis by (auto simp: find_None_iff)
next
  case (Some v)
  then have v: "v \<in> set tbl" "prefix v s"
    by (auto simp: find_Some_iff)
  from v(2) w(3) have "prefix v w \<or> prefix w v"
    by (rule prefix_same_cases)
  with pf v(1) w(1) have "v = w" by blast
  with Some show ?thesis by simp
qed

lemma strip_fixed: "find (\<lambda>w. w \<noteq> [] \<and> prefix w (strip tbl s)) tbl = None"
proof (induction tbl s rule: strip.induct)
  case (1 tbl s)
  show ?case
  proof (cases "find (\<lambda>w. w \<noteq> [] \<and> prefix w s) tbl")
    case None
    then show ?thesis by (simp add: strip_None)
  next
    case (Some w)
    with "1.IH" show ?thesis by (simp add: strip_Some)
  qed
qed

lemma strip_idem: "strip tbl (strip tbl s) = strip tbl s"
  by (rule strip_None) (rule strip_fixed)

lemma strip_suffix: "suffix (strip tbl s) s"
proof (induction tbl s rule: strip.induct)
  case (1 tbl s)
  show ?case
  proof (cases "find (\<lambda>w. w \<noteq> [] \<and> prefix w s) tbl")
    case None
    then show ?thesis by (simp add: strip_None)
  next
    case (Some w)
    with "1.IH" have "suffix (strip tbl s) (drop (length w) s)"
      by (simp add: strip_Some)
    then show ?thesis
      using suffix_drop suffix_order.trans by blast
  qed
qed

lemma strip_entry:
  assumes pf: "\<forall>a\<in>set tbl. \<forall>b\<in>set tbl. prefix a b \<longrightarrow> a = b"
    and w: "w \<in> set tbl"
  shows "strip tbl (w @ s) = strip tbl s"
proof (cases "w = []")
  case True
  then show ?thesis by simp
next
  case False
  with pf w have "find (\<lambda>v. v \<noteq> [] \<and> prefix v (w @ s)) tbl = Some w"
    by (intro find_entry) auto
  then show ?thesis by (simp add: strip_Some)
qed

lemma strip_concat:
  assumes pf: "\<forall>a\<in>set tbl. \<forall>b\<in>set tbl. prefix a b \<longrightarrow> a = b"
  shows "set ws \<subseteq> set tbl \<Longrightarrow> strip tbl (concat ws @ s) = strip tbl s"
  by (induction ws) (simp_all add: strip_entry [OF pf])

lemma strip_append:
  assumes pf: "\<forall>a\<in>set tbl. \<forall>b\<in>set tbl. prefix a b \<longrightarrow> a = b"
    and r: "r = [] \<or> (\<forall>w\<in>set tbl. hd r \<notin> set (tl w))"
  shows "strip tbl (m @ r) = (if strip tbl m = [] then strip tbl r else strip tbl m @ r)"
  using pf r
proof (induction tbl m rule: strip.induct)
  case (1 tbl m)
  show ?case
  proof (cases "find (\<lambda>w. w \<noteq> [] \<and> prefix w m) tbl")
    case None
    then have m: "strip tbl m = m" by (rule strip_None)
    show ?thesis
    proof (cases "m = []")
      case True
      then show ?thesis by (simp add: strip_Nil)
    next
      case False
      have "find (\<lambda>w. w \<noteq> [] \<and> prefix w (m @ r)) tbl = None"
        unfolding find_None_iff
      proof (intro notI, elim exE conjE)
        fix w assume w: "w \<in> set tbl" "w \<noteq> []" "prefix w (m @ r)"
        from None w(1,2) have "\<not> prefix w m"
          by (auto simp: find_None_iff)
        with w(3) obtain us where us: "w = m @ us" "us \<noteq> []" "prefix us r"
          by (auto simp: prefix_append)
        then have "r \<noteq> []" "hd r = hd us" by (auto simp: prefix_def)
        moreover from us False have "hd us \<in> set (tl w)"
          by (cases m) auto
        ultimately show False using "1.prems"(2) w(1) by auto
      qed
      then have "strip tbl (m @ r) = m @ r" by (rule strip_None)
      with m False show ?thesis by simp
    qed
  next
    case (Some w)
    then have w: "w \<in> set tbl" "w \<noteq> []" "prefix w m"
      by (auto simp: find_Some_iff)
    then have "find (\<lambda>v. v \<noteq> [] \<and> prefix v (m @ r)) tbl = Some w"
      using "1.prems"(1) by (intro find_entry) auto
    then have "strip tbl (m @ r) = strip tbl (drop (length w) (m @ r))"
      by (rule strip_Some)
    also from w(3) have "drop (length w) (m @ r) = drop (length w) m @ r"
      by (auto simp: prefix_def)
    also have "strip tbl (drop (length w) m @ r) =
        (if strip tbl (drop (length w) m) = [] then strip tbl r
         else strip tbl (drop (length w) m) @ r)"
      using "1.IH" [OF Some] "1.prems" by simp
    also have "strip tbl (drop (length w) m) = strip tbl m"
      using Some by (simp add: strip_Some)
    finally show ?thesis .
  qed
qed

lemma White_Space_prefix_free:
  "\<forall>a\<in>set White_Space. \<forall>b\<in>set White_Space. prefix a b \<longrightarrow> a = b"
  unfolding White_Space_def by simp

lemma White_Space_suffix_free:
  "\<forall>a\<in>set (map rev White_Space). \<forall>b\<in>set (map rev White_Space). prefix a b \<longrightarrow> a = b"
  unfolding White_Space_def by simp

lemma White_Space_heads:
  "\<forall>a\<in>set White_Space. \<forall>w\<in>set White_Space. a \<noteq> [] \<and> hd a \<notin> set (tl w)"
  unfolding White_Space_def by simp

lemma TrimLeftSpace_padding:
  "set ls \<subseteq> set White_Space \<Longrightarrow> TrimLeftSpace (concat ls @ s) = TrimLeftSpace s"
  unfolding TrimLeftSpace_def by (rule strip_concat [OF White_Space_prefix_free])

lemma TrimRightSpace_padding:
  assumes "set rs \<subseteq> set White_Space"
  shows "TrimRightSpace (s @ concat rs) = TrimRightSpace s"
proof -
  have "rev (concat rs) = concat (map rev (rev rs))"
    by (simp add: rev_concat)
  moreover have "set (map rev (rev rs)) \<subseteq> set (map rev White_Space)"
    using assms by auto
  ultimately show ?thesis
    unfolding TrimRightSpace_def
    by (simp add: strip_concat [OF White_Space_suffix_free])
qed

lemma hd_concat_White_Space:
  assumes "set rs \<subseteq> set White_Space"
  shows "concat rs = [] \<or> (\<forall>w\<in>set White_Space. hd (concat rs) \<notin> set (tl w))"
  using assms
proof (induction rs)
  case Nil
  then show ?case by simp
next
  case (Cons a rs)
  then have "a \<in> set White_Space" by simp
  with White_Space_heads have "a \<noteq> []" "\<forall>w\<in>set White_Space. hd a \<notin> set (tl w)"
    by blast+
  then show ?case by simp
qed

lemma TrimSpace_padding:
  assumes ls: "set ls \<subseteq> set White_Space" and rs: "set rs \<subseteq> set White_Space"
  shows "TrimSpace (concat ls @ m @ concat rs) = TrimSpace m"
proof -
  have "TrimLeftSpace (concat ls @ m @ concat rs) = TrimLeftSpace (m @ concat rs)"
    using ls by (rule TrimLeftSpace_padding)
  also have "\<dots> = (if TrimLeftSpace m = [] then TrimLeftSpace (concat rs)
                     else TrimLeftSpace m @ concat rs)"
    unfolding TrimLeftSpace_def
    by (rule strip_append [OF White_Space_prefix_free hd_concat_White_Space [OF rs]])
  also have "TrimLeftSpace (concat rs) = []"
    using TrimLeftSpace_padding [OF rs, of "[]"] by (simp add: TrimLeftSpace_def strip_Nil)
  finally have "TrimLeftSpace (concat ls @ m @ concat rs) =
      (if TrimLeftSpace m = [] then [] else TrimLeftSpace m @ concat rs)" .
  then show ?thesis
    unfolding TrimSpace_def by (simp add: TrimRightSpace_padding [OF rs])
qed

lemma TrimSpace_idem: "TrimSpace (TrimSpace m) = TrimSpace m"
proof -
  define x where "x = TrimLeftSpace m"
  define y where "y = TrimRightSpace x"
  have "suffix (rev y) (rev x)"
    unfolding y_def TrimRightSpace_def by (simp add: strip_suffix)
  then have yx: "prefix y x"
    by (simp add: suffix_to_prefix)
  have "find (\<lambda>w. w \<noteq> [] \<and> prefix w x) White_Space = None"
    unfolding x_def TrimLeftSpace_def by (rule strip_fixed)
  then have "find (\<lambda>w. w \<noteq> [] \<and> prefix w y) White_Space = None"
    using yx by (auto simp: find_None_iff dest: prefix_order.trans)
  then have "TrimLeftSpace y = y"
    unfolding TrimLeftSpace_def by (rule strip_None)
  moreover have "TrimRightSpace y = y"
    unfolding y_def TrimRightSpace_def by (simp add: strip_idem)
  ultimately show ?thesis
    unfolding TrimSpace_def x_def [symmetric] y_def [symmetric] by simp
qed

lemma TrimSpace_echo: "TrimSpace (''echo:'' @ text) = ''echo:'' @ TrimRightSpace text"
proof -
  have "find (\<lambda>w. w \<noteq> [] \<and> prefix w (''echo:'' @ text)) White_Space = None"
    by (simp add: White_Space_def)
  then have front: "TrimLeftSpace (''echo:'' @ text) = ''echo:'' @ text"
    unfolding TrimLeftSpace_def by (rule strip_None)
  have no: "find (\<lambda>w. w \<noteq> [] \<and> prefix w (rev ''echo:'')) (map rev White_Space) = None"
    by (simp add: White_Space_def)
  have r: "rev ''echo:'' = [] \<or> (\<forall>w\<in>set (map rev White_Space). hd (rev ''echo:'') \<notin> set (tl w))"
    by (simp add: White_Space_def)
  have "strip (map rev White_Space) (rev text @ rev ''echo:'') =
      (if strip (map rev White_Space) (rev text) = [] then strip (map rev White_Space) (rev ''echo:'')
       else strip (map rev White_Space) (rev text) @ rev ''echo:'')"
    by (rule strip_append [OF White_Space_suffix_free r])
  also have "strip (map rev White_Space) (rev ''echo:'') = rev ''echo:''"
    using no by (rule strip_None)
  finally have "strip (map rev White_Space) (rev text @ rev ''echo:'') =
      strip (map rev White_Space) (rev text) @ rev ''echo:''"
    by simp
  then have "TrimRightSpace (''echo:'' @ text) = ''echo:'' @ TrimRightSpace text"
    unfolding TrimRightSpace_def by simp
  with front show ?thesis by (simp add: TrimSpace_def)
qed

lemma TrimSpace_ping: "TrimSpace ''ping'' = ''ping''"
  by (simp add: TrimSpace_def TrimLeftSpace_def TrimRightSpace_def strip.simps White_Space_def)

lemma TrimSpace_time: "TrimSpace ''time'' = ''time''"
  by (simp add: TrimSpace_def TrimLeftSpace_def TrimRightSpace_def strip.simps White_Space_def)

section \<open>The utility tokens of the echo server\<close>

text \<open>
  Claim C9, as the code has it. \<open>processMessage\<close> answers \<open>ping\<close> with \<open>pong\<close> and \<open>time\<close>
  with the current time in the layout \<open>2006-01-02 15:04:05\<close>. It trims the whole message
  before it looks at it, so for \<open>echo:\<close> followed by a text it returns the text without
  its trailing white space: exactly the text when the text does not end in white
  space.
\<close>

theorem processMessage_tokens:
  "processMessage now_Format ''ping'' = ''pong'' \<and>
   processMessage now_Format ''time'' = now_Format ''2006-01-02 15:04:05'' \<and>
   processMessage now_Format (''echo:'' @ text) = TrimRightSpace text"
  unfolding processMessage_def TrimSpace_ping TrimSpace_time TrimSpace_echo
  by (simp add: HasPrefix_def TrimPrefix_def)

theorem processMessage_tokens_witness:
  "processMessage layout_clock ''ping'' = ''pong'' \<and>
   processMessage layout_clock ''time'' = ''2006-01-02 15:04:05'' \<and>
   processMessage layout_clock ''echo:Hello World'' = ''Hello World''"
proof -
  have "TrimRightSpace ''Hello World'' = ''Hello World''"
    by (simp add: TrimRightSpace_def strip.simps White_Space_def)
  then show ?thesis
    using processMessage_tokens [of layout_clock "''Hello World''"]
    by (simp add: layout_clock_def)
qed

text \<open>
  Claim C9 as it is stated fails for a text that ends in white space: the answer to
  \<open>echo:hi\<close> followed by a blank is \<open>hi\<close>, without the blank.
\<close>

theorem processMessage_echo_counterexample:
  "processMessage layout_clock (''echo:'' @ ''hi '') = ''hi'' \<and> ''hi'' \<noteq> ''hi ''"
  by (simp add: processMessage_def TrimSpace_def TrimLeftSpace_def TrimRightSpace_def
      strip.simps White_Space_def HasPrefix_def TrimPrefix_def)

text \<open>
  Claim C10. \<open>processMessage\<close> trims the message before it dispatches: white space
  runes put before and after a message \<open>m\<close> do not change the answer, which is the
  answer to the trimmed \<open>m\<close> (for the same reading of the clock).
\<close>

theorem processMessage_padding:
  "set ls \<subseteq> set White_Space \<Longrightarrow> set rs \<subseteq> set White_Space \<Longrightarrow>
   processMessage now_Format (concat ls @ m @ concat rs) = processMessage now_Format (TrimSpace m)"
  by (simp add: processMessage_def TrimSpace_padding TrimSpace_idem)

theorem processMessage_padding_witness:
  "processMessage layout_clock ''  ping '' = ''pong'' \<and>
   processMessage layout_clock (TrimSpace ''ping'') = ''pong''"
proof -
  have "set ['' '', '' ''] \<subseteq> set White_Space" "set ['' ''] \<subseteq> set White_Space"
    by (simp_all add: White_Space_def)
  from processMessage_padding [OF this, of layout_clock "''ping''"]
  show ?thesis
    by (simp add: processMessage_def TrimSpace_ping)
qed

section \<open>Broadcast\<close>

lemmas trim_eval = TrimSpace_def TrimLeftSpace_def TrimRightSpace_def strip.simps White_Space_def

lemma TrimSpace_alice: "TrimSpace ''alice\<newline>'' = ''alice''"
  by (simp add: trim_eval)

lemma TrimSpace_bob: "TrimSpace ''bob\<newline>'' = ''bob''"
  by (simp add: trim_eval)

lemma TrimSpace_hi: "TrimSpace ''hi\<newline>'' = ''hi''"
  by (simp add: trim_eval)

lemma TrimSpace_quit: "TrimSpace ''/quit\<newline>'' = ''/quit''"
  by (simp add: trim_eval)

lemma alice_eq: "alice = \<lparr>conn = 1, name = ''alice'', sendChan = []\<rparr>"
  unfolding alice_def handleConnection_chat_def TrimSpace_alice by (simp add: Let_def)

lemma two_clients_alice:
  "clients two_clients ''alice'' =
     Some \<lparr>conn = 1, name = ''alice'', sendChan = [''alice'' @ joined, ''bob'' @ joined]\<rparr>"
  unfolding two_clients_def handleConnection_chat_def TrimSpace_alice TrimSpace_bob
  by (simp add: Let_def broadcast_def register_def NewTCPServer_chat_def select_send_def
      chan_send_def sendChan_cap_def)

lemma two_clients_bob:
  "clients two_clients ''bob'' = Some \<lparr>conn = 2, name = ''bob'', sendChan = [''bob'' @ joined]\<rparr>"
  unfolding two_clients_def handleConnection_chat_def TrimSpace_alice TrimSpace_bob
  by (simp add: Let_def broadcast_def register_def NewTCPServer_chat_def select_send_def
      chan_send_def sendChan_cap_def)

lemma two_clients_closed: "closed two_clients = {}"
  unfolding two_clients_def handleConnection_chat_def
  by (simp add: Let_def broadcast_def register_def NewTCPServer_chat_def)

lemma select_send_room:
  "length (sendChan c) < sendChan_cap \<Longrightarrow> select_send message c = c\<lparr>sendChan := sendChan c @ [message]\<rparr>"
  by (simp add: select_send_def chan_send_def)

lemma select_send_full: "sendChan_cap \<le> length (sendChan c) \<Longrightarrow> select_send message c = c"
  by (simp add: select_send_def chan_send_def)

text \<open>
  Claim C1, as the code has it. Neither server leaves the sender out. On the server
  with send queues, a line that is not \<open>/quit\<close> is trimmed and the line
  \<open>[name]: payload\<close> with a newline is appended, once, to the queue of every registered
  client that has room, the sender's own queue included. On \<open>ChatServer\<close> the line
  \<open>[name] payload\<close> enters the broadcast channel, and \<open>handleBroadcast\<close> writes it and a
  newline, once, to every registered connection that is open, the sender's included.
\<close>

theorem broadcast_reachability:
  "(clients s n = Some c \<and> length (sendChan c) < sendChan_cap \<and> TrimSpace line \<noteq> ''/quit'' \<longrightarrow>
      clients (snd (readMessages_step sender (Line line) s)) n =
        Some (c\<lparr>sendChan := sendChan c @ [''['' @ name sender @ '']: '' @ TrimSpace line @ [CHR 0x0A]]\<rparr>)) \<and>
   (msg \<noteq> ''/quit'' \<and> length (broadcast_cs cs) < broadcast_cap \<longrightarrow>
      handleChatClient_line username msg cs =
        Done (True, cs\<lparr>broadcast_cs := broadcast_cs cs @ [''['' @ username @ ''] '' @ msg]\<rparr>)) \<and>
   (broadcast_cs hub = m # rest \<and> writers_waiting hub = 0 \<and> clients_cs hub k = Some u \<and>
    k \<notin> closed_cs hub \<longrightarrow>
      (\<exists>hub'. handleBroadcast_step hub = Done hub' \<and>
         written_cs hub' k = written_cs hub k @ [m @ [CHR 0x0A]]))"
  by (simp add: readMessages_step_def Let_def broadcast_def select_send_room
      handleChatClient_line_def send_broadcast_def chan_send_def handleBroadcast_step_def)

theorem broadcast_reachability_witness:
  "clients (snd (readMessages_step alice (Line ''hi\<newline>'') two_clients)) ''alice'' =
     Some \<lparr>conn = 1, name = ''alice'',
           sendChan = [''alice'' @ joined, ''bob'' @ joined, ''[alice]: hi\<newline>'']\<rparr> \<and>
   handleChatClient_line ''alice'' ''hi'' NewChatServer =
     Done (True, NewChatServer\<lparr>broadcast_cs := [''[alice] hi'']\<rparr>) \<and>
   (\<exists>hub'. handleBroadcast_step (NewChatServer\<lparr>clients_cs := [1 \<mapsto> ''alice''], broadcast_cs := [''[alice] hi'']\<rparr>) = Done hub' \<and>
      written_cs hub' 1 = [''[alice] hi\<newline>''])"
proof -
  let ?hub = "NewChatServer\<lparr>clients_cs := [1 \<mapsto> ''alice''], broadcast_cs := [''[alice] hi'']\<rparr>"
  let ?c = "\<lparr>conn = 1, name = ''alice'', sendChan = [''alice'' @ joined, ''bob'' @ joined]\<rparr>"
  have a: "clients two_clients ''alice'' = Some ?c \<and> length (sendChan ?c) < sendChan_cap \<and>
      TrimSpace ''hi\<newline>'' \<noteq> ''/quit''"
    by (simp add: two_clients_alice sendChan_cap_def TrimSpace_hi)
  have b: "''hi'' \<noteq> ''/quit'' \<and> length (broadcast_cs NewChatServer) < broadcast_cap"
    by (simp add: NewChatServer_def broadcast_cap_def)
  have c: "broadcast_cs ?hub = ''[alice] hi'' # [] \<and> writers_waiting ?hub = 0 \<and>
      clients_cs ?hub 1 = Some ''alice'' \<and> 1 \<notin> closed_cs ?hub"
    by (simp add: NewChatServer_def)
  note th = broadcast_reachability [where s = two_clients and n = "''alice''" and c = ?c
      and line = "''hi\<newline>''" and sender = alice and msg = "''hi''" and cs = NewChatServer
      and username = "''alice''" and hub = ?hub and m = "''[alice] hi''" and rest = "[]" and k = 1
      and u = "''alice''"]
  note t1 = th [THEN conjunct1, THEN mp, OF a]
  note t2 = th [THEN conjunct2, THEN conjunct1, THEN mp, OF b]
  note t3 = th [THEN conjunct2, THEN conjunct2, THEN mp, OF c]
  from t1 have "clients (snd (readMessages_step alice (Line ''hi\<newline>'') two_clients)) ''alice'' =
     Some \<lparr>conn = 1, name = ''alice'',
           sendChan = [''alice'' @ joined, ''bob'' @ joined, ''[alice]: hi\<newline>'']\<rparr>"
    by (simp add: TrimSpace_hi alice_eq)
  moreover from t2 have "handleChatClient_line ''alice'' ''hi'' NewChatServer =
     Done (True, NewChatServer\<lparr>broadcast_cs := [''[alice] hi'']\<rparr>)"
    by (simp add: NewChatServer_def)
  moreover from t3 have "\<exists>hub'. handleBroadcast_step ?hub = Done hub' \<and>
      written_cs hub' 1 = [''[alice] hi\<newline>'']"
    by (simp add: NewChatServer_def)
  ultimately show ?thesis by blast
qed

text \<open>
  Claim C1 as it is stated fails in Scenario A. On the server with send queues, after
  alice has sent \<open>hi\<close>, the queue of bob holds \<open>[alice]: hi\<close> (with a colon), and so does
  the queue of alice. On \<open>ChatServer\<close> the line \<open>[alice] hi\<close> is written to bob and to
  alice.
\<close>

theorem scenario_A_counterexample:
  "map_option sendChan (clients (snd (readMessages_step alice (Line ''hi\<newline>'') two_clients)) ''bob'')
     = Some [''bob'' @ joined, ''[alice]: hi\<newline>''] \<and>
   map_option sendChan (clients (snd (readMessages_step alice (Line ''hi\<newline>'') two_clients)) ''alice'')
     = Some [''alice'' @ joined, ''bob'' @ joined, ''[alice]: hi\<newline>''] \<and>
   and_then scenario_A_cs (written_to 1)
     = Done [system_tag @ ''alice'' @ joined_cs @ [CHR 0x0A], system_tag @ ''bob'' @ joined_cs @ [CHR 0x0A],
             ''[alice] hi\<newline>''] \<and>
   and_then scenario_A_cs (written_to 2)
     = Done [system_tag @ ''alice'' @ joined_cs @ [CHR 0x0A], system_tag @ ''bob'' @ joined_cs @ [CHR 0x0A],
             ''[alice] hi\<newline>'']"
proof (intro conjI)
  show "map_option sendChan (clients (snd (readMessages_step alice (Line ''hi\<newline>'') two_clients)) ''bob'')
     = Some [''bob'' @ joined, ''[alice]: hi\<newline>'']"
    unfolding readMessages_step_def read.case TrimSpace_hi
    by (simp add: Let_def broadcast_def two_clients_bob alice_eq select_send_def chan_send_def
        sendChan_cap_def)
  show "map_option sendChan (clients (snd (readMessages_step alice (Line ''hi\<newline>'') two_clients)) ''alice'')
     = Some [''alice'' @ joined, ''bob'' @ joined, ''[alice]: hi\<newline>'']"
    unfolding readMessages_step_def read.case TrimSpace_hi
    by (simp add: Let_def broadcast_def two_clients_alice alice_eq select_send_def chan_send_def
        sendChan_cap_def)
  show "and_then scenario_A_cs (written_to 1)
     = Done [system_tag @ ''alice'' @ joined_cs @ [CHR 0x0A], system_tag @ ''bob'' @ joined_cs @ [CHR 0x0A],
             ''[alice] hi\<newline>'']"
    by (simp add: scenario_A_cs_def two_clients_cs_def register_cs_def announce_cs_def
        send_broadcast_def chan_send_def broadcast_cap_def NewChatServer_def locked_def
        written_to_def
        handleChatClient_line_def handleBroadcast_step_def)
  show "and_then scenario_A_cs (written_to 2)
     = Done [system_tag @ ''alice'' @ joined_cs @ [CHR 0x0A], system_tag @ ''bob'' @ joined_cs @ [CHR 0x0A],
             ''[alice] hi\<newline>'']"
    by (simp add: scenario_A_cs_def two_clients_cs_def register_cs_def announce_cs_def
        send_broadcast_def chan_send_def broadcast_cap_def NewChatServer_def locked_def
        written_to_def
        handleChatClient_line_def handleBroadcast_step_def)
qed

text \<open>
  Claim C4, as the code has it. A client whose queue is full is skipped: a plain send
  would block, the \<open>select\<close> of \<open>broadcast\<close> does not and leaves the client as it is, so
  the payload is dropped for that client and its queue is as it was.
  Every other client with room gets the payload. Nothing counts the drop: the
  registry aside, \<open>broadcast\<close> changes nothing, and when every queue is full the state
  after it is the state before.
\<close>

theorem broadcast_full_buffer:
  "clients s n = Some c \<Longrightarrow> sendChan_cap \<le> length (sendChan c) \<Longrightarrow>
   clients (broadcast message s) n = Some c \<and>
   chan_send sendChan_cap message (sendChan c) = None \<and>
   select_send message c = c \<and>
   (\<forall>n' c'. clients s n' = Some c' \<and> length (sendChan c') < sendChan_cap \<longrightarrow>
      clients (broadcast message s) n' = Some (c'\<lparr>sendChan := sendChan c' @ [message]\<rparr>)) \<and>
   closed (broadcast message s) = closed s \<and>
   address_chat (broadcast message s) = address_chat s \<and>
   ((\<forall>n' c'. clients s n' = Some c' \<longrightarrow> sendChan_cap \<le> length (sendChan c')) \<longrightarrow>
      broadcast message s = s)"
proof (intro conjI allI impI)
  assume "clients s n = Some c" and full: "sendChan_cap \<le> length (sendChan c)"
  then show "clients (broadcast message s) n = Some c"
    by (simp add: broadcast_def select_send_full)
  from full show "chan_send sendChan_cap message (sendChan c) = None"
    by (simp add: chan_send_def)
  from full show "select_send message c = c"
    by (rule select_send_full)
next
  fix n' c' assume "clients s n' = Some c' \<and> length (sendChan c') < sendChan_cap"
  then show "clients (broadcast message s) n' = Some (c'\<lparr>sendChan := sendChan c' @ [message]\<rparr>)"
    by (simp add: broadcast_def select_send_room)
next
  show "closed (broadcast message s) = closed s" by (simp add: broadcast_def)
next
  show "address_chat (broadcast message s) = address_chat s" by (simp add: broadcast_def)
next
  assume full: "\<forall>n' c'. clients s n' = Some c' \<longrightarrow> sendChan_cap \<le> length (sendChan c')"
  have "(\<lambda>n. map_option (select_send message) (clients s n)) = clients s"
  proof
    fix k show "map_option (select_send message) (clients s k) = clients s k"
      using full by (cases "clients s k") (simp_all add: select_send_full)
  qed
  then show "broadcast message s = s" by (simp add: broadcast_def)
qed

theorem broadcast_full_buffer_witness:
  "clients (broadcast ''hello'' (register \<lparr>conn = 1, name = ''alice'', sendChan = []\<rparr> full_buffer)) ''bob''
     = Some \<lparr>conn = 2, name = ''bob'', sendChan = replicate 100 ''x''\<rparr> \<and>
   clients (broadcast ''hello'' (register \<lparr>conn = 1, name = ''alice'', sendChan = []\<rparr> full_buffer)) ''alice''
     = Some \<lparr>conn = 1, name = ''alice'', sendChan = [''hello'']\<rparr>"
proof -
  let ?s = "register \<lparr>conn = 1, name = ''alice'', sendChan = []\<rparr> full_buffer"
  let ?bob = "\<lparr>conn = 2, name = ''bob'', sendChan = replicate 100 ''x''\<rparr>"
  have bob: "clients ?s ''bob'' = Some ?bob"
    by (simp add: full_buffer_def register_def NewTCPServer_chat_def)
  have full: "sendChan_cap \<le> length (sendChan ?bob)"
    by (simp add: sendChan_cap_def)
  have alice: "clients ?s ''alice'' = Some \<lparr>conn = 1, name = ''alice'', sendChan = []\<rparr>"
    by (simp add: register_def)
  have room: "length (sendChan \<lparr>conn = 1, name = ''alice'', sendChan = []\<rparr>) < sendChan_cap"
    by (simp add: sendChan_cap_def)
  note th = broadcast_full_buffer [OF bob full, of "''hello''"]
  from th have "clients (broadcast ''hello'' ?s) ''bob'' = Some ?bob"
    by (rule conjunct1)
  moreover from th alice room
  have "clients (broadcast ''hello'' ?s) ''alice'' =
      Some (\<lparr>conn = 1, name = ''alice'', sendChan = []\<rparr>\<lparr>sendChan := sendChan \<lparr>conn = 1, name = ''alice'', sendChan = []\<rparr> @ [''hello'']\<rparr>)"
    by blast
  ultimately show ?thesis by simp
qed

text \<open>
  Claim C4 as it is stated fails where it says the drop is counted: a broadcast to
  the registry whose only client has a full queue leaves the whole state unchanged.
\<close>

theorem broadcast_full_counterexample: "broadcast ''hello'' full_buffer = full_buffer"
proof -
  have "(\<lambda>n. map_option (select_send ''hello'') (clients full_buffer n)) = clients full_buffer"
    by (rule ext) (simp add: full_buffer_def register_def NewTCPServer_chat_def select_send_def
        chan_send_def sendChan_cap_def)
  then show ?thesis by (simp add: broadcast_def)
qed

section \<open>The registry\<close>

lemma registered_snoc_Register:
  "registered_not_deregistered (ops @ [Register c]) n =
     (name c = n \<or> registered_not_deregistered ops n)"
proof
  assume "registered_not_deregistered (ops @ [Register c]) n"
  then obtain pre client post where
    d: "ops @ [Register c] = pre @ Register client # post" "name client = n" "Deregister n \<notin> set post"
    unfolding registered_not_deregistered_def by blast
  show "name c = n \<or> registered_not_deregistered ops n"
  proof (cases post rule: rev_cases)
    case Nil
    with d show ?thesis by simp
  next
    case (snoc post' x)
    with d have "ops = pre @ Register client # post'" "Deregister n \<notin> set post'"
      by simp_all
    with d(2) show ?thesis
      unfolding registered_not_deregistered_def by blast
  qed
next
  assume "name c = n \<or> registered_not_deregistered ops n"
  then show "registered_not_deregistered (ops @ [Register c]) n"
  proof
    assume "name c = n"
    then have "ops @ [Register c] = ops @ Register c # [] \<and> name c = n \<and> Deregister n \<notin> set []"
      by simp
    then show ?thesis
      unfolding registered_not_deregistered_def by blast
  next
    assume "registered_not_deregistered ops n"
    then obtain pre client post where
      "ops = pre @ Register client # post" "name client = n" "Deregister n \<notin> set post"
      unfolding registered_not_deregistered_def by blast
    then have "ops @ [Register c] = pre @ Register client # (post @ [Register c]) \<and> name client = n \<and>
        Deregister n \<notin> set (post @ [Register c])"
      by simp
    then show ?thesis
      unfolding registered_not_deregistered_def by blast
  qed
qed

lemma registered_snoc_Deregister:
  "registered_not_deregistered (ops @ [Deregister m]) n =
     (m \<noteq> n \<and> registered_not_deregistered ops n)"
proof
  assume "registered_not_deregistered (ops @ [Deregister m]) n"
  then obtain pre client post where
    d: "ops @ [Deregister m] = pre @ Register client # post" "name client = n" "Deregister n \<notin> set post"
    unfolding registered_not_deregistered_def by blast
  show "m \<noteq> n \<and> registered_not_deregistered ops n"
  proof (cases post rule: rev_cases)
    case Nil
    with d show ?thesis by simp
  next
    case (snoc post' x)
    with d have "ops = pre @ Register client # post'" "Deregister n \<notin> set post'" "m \<noteq> n"
      by auto
    with d(2) show ?thesis
      unfolding registered_not_deregistered_def by blast
  qed
next
  assume a: "m \<noteq> n \<and> registered_not_deregistered ops n"
  then obtain pre client post where
    "ops = pre @ Register client # post" "name client = n" "Deregister n \<notin> set post"
    unfolding registered_not_deregistered_def by blast
  with a have "ops @ [Deregister m] = pre @ Register client # (post @ [Deregister m]) \<and> name client = n \<and>
      Deregister n \<notin> set (post @ [Deregister m])"
    by auto
  then show "registered_not_deregistered (ops @ [Deregister m]) n"
    unfolding registered_not_deregistered_def by blast
qed

lemma registered_Nil: "\<not> registered_not_deregistered [] n"
  by (simp add: registered_not_deregistered_def)

text \<open>
  Claim C3, as the code has it. After any sequence of insertions and deletions on
  the empty registry, the registry holds a name exactly when the name has been
  registered and not deregistered since. This is about names, the keys of the map,
  and not about connections.
\<close>

theorem registry_consistency:
  "(n \<in> dom (clients (foldl apply_op (NewTCPServer_chat addr) ops))) =
     registered_not_deregistered ops n"
proof (induction ops rule: rev_induct)
  case Nil
  then show ?case by (simp add: registered_Nil NewTCPServer_chat_def)
next
  case (snoc op ops)
  then show ?case
    by (cases op)
      (auto simp: registered_snoc_Register registered_snoc_Deregister register_def deregister_def
        split: if_splits)
qed

theorem registry_consistency_witness:
  "''bob'' \<in> dom (clients (foldl apply_op (NewTCPServer_chat '':8080'')
      [Register \<lparr>conn = 1, name = ''alice'', sendChan = []\<rparr>,
       Register \<lparr>conn = 2, name = ''bob'', sendChan = []\<rparr>, Deregister ''alice''])) \<and>
   ''alice'' \<notin> dom (clients (foldl apply_op (NewTCPServer_chat '':8080'')
      [Register \<lparr>conn = 1, name = ''alice'', sendChan = []\<rparr>,
       Register \<lparr>conn = 2, name = ''bob'', sendChan = []\<rparr>, Deregister ''alice'']))"
proof -
  let ?ops = "[Register \<lparr>conn = 1, name = ''alice'', sendChan = []\<rparr>,
       Register \<lparr>conn = 2, name = ''bob'', sendChan = []\<rparr>, Deregister ''alice'']"
  have "?ops = [Register \<lparr>conn = 1, name = ''alice'', sendChan = []\<rparr>] @
      Register \<lparr>conn = 2, name = ''bob'', sendChan = []\<rparr> # [Deregister ''alice''] \<and>
      name \<lparr>conn = 2, name = ''bob'', sendChan = []\<rparr> = ''bob'' \<and>
      Deregister ''bob'' \<notin> set [Deregister ''alice'']"
    by simp
  then have "registered_not_deregistered ?ops ''bob''"
    unfolding registered_not_deregistered_def by blast
  then have b: "''bob'' \<in> dom (clients (foldl apply_op (NewTCPServer_chat '':8080'') ?ops))"
    using registry_consistency [of "''bob''" "'':8080''" ?ops] by simp
  have "''alice'' \<notin> dom (clients (foldl apply_op (NewTCPServer_chat '':8080'') ?ops))"
    by (simp add: register_def deregister_def NewTCPServer_chat_def)
  with b show ?thesis by simp
qed

text \<open>
  Claim C3 as it is stated equates this with the life of a connection, which fails:
  when a second connection registers under the name of the first, the registry
  holds the second only, though the first has been neither deregistered nor closed.
\<close>

theorem registry_connection_counterexample:
  "clients (foldl apply_op (NewTCPServer_chat '':8080'')
      [Register \<lparr>conn = 1, name = ''alice'', sendChan = []\<rparr>,
       Register \<lparr>conn = 2, name = ''alice'', sendChan = []\<rparr>]) ''alice''
     = Some \<lparr>conn = 2, name = ''alice'', sendChan = []\<rparr> \<and>
   ran (clients (foldl apply_op (NewTCPServer_chat '':8080'')
      [Register \<lparr>conn = 1, name = ''alice'', sendChan = []\<rparr>,
       Register \<lparr>conn = 2, name = ''alice'', sendChan = []\<rparr>]))
     = {\<lparr>conn = 2, name = ''alice'', sendChan = []\<rparr>} \<and>
   1 \<notin> closed (foldl apply_op (NewTCPServer_chat '':8080'')
      [Register \<lparr>conn = 1, name = ''alice'', sendChan = []\<rparr>,
       Register \<lparr>conn = 2, name = ''alice'', sendChan = []\<rparr>])"
  by (simp add: register_def NewTCPServer_chat_def)

text \<open>
  Claim C7, as the code has it. Registering under a name that is present replaces
  the entry: the name then maps to the new client, and no other entry changes.
  \<open>handleConnection\<close> so replaces the entry of the name it has read by the client of its
  own connection, whose queue then holds the announcement. The registration of
  \<open>ChatServer\<close> is an assignment to the map as well.
\<close>

theorem register_replaces:
  "clients s (name client) = Some old \<Longrightarrow>
     clients (register client s) (name client) = Some client \<and>
     (\<forall>n. n \<noteq> name client \<longrightarrow> clients (register client s) n = clients s n) \<and>
     clients (snd (handleConnection_chat c line s)) (TrimSpace line) =
       Some \<lparr>conn = c, name = TrimSpace line, sendChan = [TrimSpace line @ joined]\<rparr> \<and>
     (readers cs = 0 \<longrightarrow>
        register_cs k username cs = Done (cs\<lparr>clients_cs := (clients_cs cs)(k \<mapsto> username)\<rparr>))"
  by (simp add: register_def handleConnection_chat_def Let_def broadcast_def select_send_def
      chan_send_def sendChan_cap_def register_cs_def locked_def)

theorem register_replaces_witness:
  "clients (register \<lparr>conn = 3, name = ''bob'', sendChan = []\<rparr> two_clients) ''bob'' =
     Some \<lparr>conn = 3, name = ''bob'', sendChan = []\<rparr> \<and>
   clients (register \<lparr>conn = 3, name = ''bob'', sendChan = []\<rparr> two_clients) ''alice'' =
     clients two_clients ''alice'' \<and>
   clients (snd (handleConnection_chat 3 ''bob\<newline>'' two_clients)) ''bob'' =
     Some \<lparr>conn = 3, name = ''bob'', sendChan = [''bob'' @ joined]\<rparr> \<and>
   register_cs 1 ''carol'' (NewChatServer\<lparr>clients_cs := [1 \<mapsto> ''alice'']\<rparr>) =
     Done (NewChatServer\<lparr>clients_cs := [1 \<mapsto> ''carol'']\<rparr>)"
proof -
  let ?c = "\<lparr>conn = 3, name = ''bob'', sendChan = []\<rparr>"
  let ?cs = "NewChatServer\<lparr>clients_cs := [1 \<mapsto> ''alice'']\<rparr>"
  have "clients two_clients (name ?c) = Some \<lparr>conn = 2, name = ''bob'', sendChan = [''bob'' @ joined]\<rparr>"
    by (simp add: two_clients_bob)
  moreover have "readers ?cs = 0"
    by (simp add: NewChatServer_def)
  ultimately show ?thesis
    using register_replaces [where client = ?c and s = two_clients and c = 3
        and line = "''bob\<newline>''" and cs = ?cs and k = 1 and username = "''carol''"]
    by (simp add: TrimSpace_bob)
qed

text \<open>
  Claim C7 as it is stated fails: after connection 1 has registered as alice,
  connection 2 registers as alice too, and the entry of alice is then connection 2.
\<close>

theorem register_replaces_counterexample:
  "map_option conn (clients (snd (handleConnection_chat 1 ''alice\<newline>'' (NewTCPServer_chat '':8080''))) ''alice'')
     = Some 1 \<and>
   map_option conn (clients (snd (handleConnection_chat 2 ''alice\<newline>''
       (snd (handleConnection_chat 1 ''alice\<newline>'' (NewTCPServer_chat '':8080''))))) ''alice'')
     = Some 2"
  unfolding handleConnection_chat_def TrimSpace_alice
  by (simp add: Let_def broadcast_def register_def select_send_def chan_send_def sendChan_cap_def
      NewTCPServer_chat_def)

section \<open>The control token /quit\<close>

text \<open>
  Claim C5, evaluated on the server with send queues, with alice and bob connected:
  on \<open>/quit\<close> from alice, \<open>readMessages\<close> closes her connection and returns (a line
  after it is not read), and the state is otherwise as before, so her entry stays in
  the registry. On a read error, the branch just above in the same loop, her entry
  is deleted.
\<close>

theorem quit_not_deregistered:
  "readMessages alice [Line ''/quit\<newline>'', Line ''hi\<newline>''] two_clients = two_clients\<lparr>closed := {1}\<rparr> \<and>
   map_option conn (clients (readMessages alice [Line ''/quit\<newline>'', Line ''hi\<newline>''] two_clients) ''alice'')
     = Some 1 \<and>
   clients (readMessages alice [ReadErr] two_clients) ''alice'' = None"
proof -
  have "readMessages_step alice (Line ''/quit\<newline>'') two_clients = (False, two_clients\<lparr>closed := {1}\<rparr>)"
    unfolding readMessages_step_def read.case TrimSpace_quit
    by (simp add: alice_eq two_clients_closed)
  moreover have "readMessages_step alice ReadErr two_clients =
      (False, broadcast (name alice @ left) (deregister (name alice) two_clients))"
    by (simp add: readMessages_step_def)
  ultimately show ?thesis
    by (simp add: two_clients_alice alice_eq broadcast_def deregister_def)
qed

text \<open>
  On \<open>ChatServer\<close> the departure after \<open>/quit\<close> deletes the entry and closes the
  connection, when it gets the write lock: with no read lock held and room in the
  channel it is done. Once \<open>handleBroadcast\<close> has handled a message it holds a read
  lock for good, and the departure stays blocked in \<open>Lock\<close>.
\<close>

lemma leave_cs_done:
  "readers cs = 0 \<Longrightarrow> length (broadcast_cs cs) < broadcast_cap \<Longrightarrow>
   \<exists>cs'. leave_cs c username cs = Done cs' \<and> clients_cs cs' c = None \<and> c \<in> closed_cs cs' \<and>
     (\<forall>k. k \<noteq> c \<longrightarrow> clients_cs cs' k = clients_cs cs k \<and> (k \<in> closed_cs cs') = (k \<in> closed_cs cs))"
  by (simp add: leave_cs_def deregister_cs_def locked_def send_broadcast_def chan_send_def)

lemma leave_cs_stuck:
  "handleBroadcast_step cs = Done cs' \<Longrightarrow>
   leave_cs c username cs' = Stuck (cs'\<lparr>writers_waiting := writers_waiting cs' + 1\<rparr>)"
  by (auto simp: handleBroadcast_step_def leave_cs_def deregister_cs_def locked_def
      split: list.splits if_splits)

section \<open>The accept loops\<close>

lemma accept_loop_chat_blocked: "fst (accept_loop_chat rs acc) = Blocked"
  by (induction rs acc rule: accept_loop_chat.induct) simp_all

text \<open>
  Claim C8, as the code has it. The accept loop of the echo server logs a temporary
  error and continues; it returns any other error of \<open>Accept\<close> as a value, and it
  returns \<open>nil\<close> when it finds the listener \<open>nil\<close>, which \<open>Shutdown\<close> has made it. The
  accept loop of the chat server with send queues logs every error of \<open>Accept\<close>,
  temporary or not, and continues: it never returns.
\<close>

theorem accept_loop_errors:
  "(listener s \<noteq> None \<and> is_temporary e \<longrightarrow>
      accept_loop (Err e # rs) s =
        accept_loop rs (s\<lparr>logged := logged s @ [temporary_error @ text_of e]\<rparr>)) \<and>
   (listener s \<noteq> None \<and> \<not> is_temporary e \<longrightarrow>
      accept_loop (Err e # rs) s = (Returned (Some (accept_failed @ text_of e)), s)) \<and>
   (listener s = None \<longrightarrow> accept_loop rs s = (Returned None, s)) \<and>
   accept_loop_chat (Err e # rs) (spawned, lg) =
     accept_loop_chat rs (spawned, lg @ [accept_failed @ text_of e]) \<and>
   fst (accept_loop_chat rs (spawned, lg)) = Blocked"
proof -
  have "listener s = None \<Longrightarrow> accept_loop rs s = (Returned None, s)"
    by (cases "(rs, s)" rule: accept_loop.cases) simp_all
  then show ?thesis
    by (simp add: accept_loop_chat_blocked)
qed

theorem accept_loop_errors_witness:
  "accept_loop [Err (NetError True ''timeout''), Err (NetError False ''closed''), Conn 3]
       ((NewTCPServer '':8080'')\<lparr>listener := Some 1\<rparr>) =
     (Returned (Some (accept_failed @ ''closed'')),
      (NewTCPServer '':8080'')\<lparr>listener := Some 1, logged := [temporary_error @ ''timeout'']\<rparr>) \<and>
   accept_loop [Conn 3] (NewTCPServer '':8080'') = (Returned None, NewTCPServer '':8080'') \<and>
   fst (accept_loop_chat [Err (NetError True ''timeout''), Err (NetError False ''closed'')] ([], [])) = Blocked"
proof -
  let ?s = "(NewTCPServer '':8080'')\<lparr>listener := Some 1\<rparr>"
  let ?s1 = "?s\<lparr>logged := logged ?s @ [temporary_error @ text_of (NetError True ''timeout'')]\<rparr>"
  have a: "listener ?s \<noteq> None \<and> is_temporary (NetError True ''timeout'')" by simp
  have b: "listener ?s1 \<noteq> None \<and> \<not> is_temporary (NetError False ''closed'')" by simp
  have c: "listener (NewTCPServer '':8080'') = None" by (simp add: NewTCPServer_def)
  note t1 = accept_loop_errors [where s = ?s and e = "NetError True ''timeout''"
      and rs = "[Err (NetError False ''closed''), Conn 3]", THEN conjunct1, THEN mp, OF a]
  note t2 = accept_loop_errors [where s = ?s1 and e = "NetError False ''closed''"
      and rs = "[Conn 3]", THEN conjunct2, THEN conjunct1, THEN mp, OF b]
  note t3 = accept_loop_errors [where s = "NewTCPServer '':8080''" and rs = "[Conn 3]",
      THEN conjunct2, THEN conjunct2, THEN conjunct1, THEN mp, OF c]
  note t4 = accept_loop_errors [where rs = "[Err (NetError True ''timeout''), Err (NetError False ''closed'')]"
      and spawned = "[]" and lg = "[]",
      THEN conjunct2, THEN conjunct2, THEN conjunct2, THEN conjunct2]
  from t1 t2 have "accept_loop [Err (NetError True ''timeout''), Err (NetError False ''closed''), Conn 3] ?s =
     (Returned (Some (accept_failed @ ''closed'')),
      (NewTCPServer '':8080'')\<lparr>listener := Some 1, logged := [temporary_error @ ''timeout'']\<rparr>)"
    by (simp add: NewTCPServer_def)
  with t3 t4 show ?thesis by simp
qed

text \<open>
  Claim C8 as it is stated fails on the chat server with send queues: after an error
  that is not temporary its loop is still accepting, and takes the next connection.
\<close>

theorem accept_loop_chat_counterexample:
  "Start_chat (Inr 1) [Err (NetError False ''use of closed network connection''), Conn 5] =
     (Blocked, [5], [accept_failed @ ''use of closed network connection''])"
  by (simp add: Start_chat_def)

section \<open>Shutdown\<close>

lemma handleConnection_exit_inv:
  "wg (handleConnection_exit c s) = int (length (active (handleConnection_exit c s)))"
  if "wg s = int (length (active s))"
proof (cases "c \<in> set (active s)")
  case True
  then have "int (length (active s) - 1) = int (length (active s)) - 1"
    by (cases "active s") simp_all
  with True show ?thesis
    using that by (simp add: handleConnection_exit_def length_remove1)
next
  case False
  then show ?thesis using that by (simp add: handleConnection_exit_def)
qed

lemma handleConnection_exit_closed:
  "set (active s) \<union> closed_conns s \<subseteq>
   set (active (handleConnection_exit c s)) \<union> closed_conns (handleConnection_exit c s)"
proof -
  have "set (active s) \<subseteq> insert c (set (remove1 c (active s)))"
    by (metis insert_iff in_set_remove1 subsetI)
  then show ?thesis
    by (auto simp: handleConnection_exit_def)
qed

lemma Wait_Returned:
  "Wait exits s = Returned s' \<Longrightarrow> wg s = int (length (active s)) \<Longrightarrow>
   wg s' = 0 \<and> active s' = [] \<and> listener s' = listener s \<and>
   closed_listeners s' = closed_listeners s \<and> set (active s) \<union> closed_conns s \<subseteq> closed_conns s'"
proof (induction exits arbitrary: s)
  case Nil
  then show ?case by (auto split: if_splits)
next
  case (Cons c exits)
  show ?case
  proof (cases "wg s = 0")
    case True
    with Cons.prems show ?thesis by auto
  next
    case False
    with Cons.prems have w: "Wait exits (handleConnection_exit c s) = Returned s'"
      by simp
    note ih = Cons.IH [OF w handleConnection_exit_inv [OF Cons.prems(2)]]
    have "listener (handleConnection_exit c s) = listener s"
      "closed_listeners (handleConnection_exit c s) = closed_listeners s"
      by (simp_all add: handleConnection_exit_def)
    with ih handleConnection_exit_closed [of s c] show ?thesis
      by auto
  qed
qed

lemma Wait_all_exit:
  "active s = cs \<Longrightarrow> wg s = int (length cs) \<Longrightarrow> \<exists>s'. Wait cs s = Returned s'"
proof (induction cs arbitrary: s)
  case Nil
  then show ?case by simp
next
  case (Cons c cs)
  then have "active (handleConnection_exit c s) = cs"
    "wg (handleConnection_exit c s) = int (length cs)"
    by (simp_all add: handleConnection_exit_def)
  from Cons.IH [OF this] Cons.prems show ?case by simp
qed

lemma closeListener_simps:
  "listener (closeListener s) = None"
  "wg (closeListener s) = wg s"
  "active (closeListener s) = active s"
  "closed_conns (closeListener s) = closed_conns s"
  "listener s = Some l \<Longrightarrow> l \<in> closed_listeners (closeListener s)"
  by (simp_all add: closeListener_def split: option.splits)

text \<open>
  Claim C6, as the code has it. \<open>Shutdown\<close> takes no deadline and closes no connection.
  It closes the listener and clears the field, and then waits until every handler
  has finished: with a handler running and none finishing it stays blocked; when all
  of them finish it returns. Whenever it returns, the listener is closed and the
  field is \<open>nil\<close>, so that the accept loop returns at once; the counter is zero, no
  handler is running, and every connection that was being handled has been closed,
  by its own handler. The counter of the wait group is the number of running
  handlers: \<open>Start\<close> adds one for each handler it starts and each handler takes one off
  as it ends.
\<close>

theorem Shutdown_waits:
  "wg s = int (length (active s)) \<Longrightarrow>
   closed_conns (closeListener s) = closed_conns s \<and>
   (active s \<noteq> [] \<longrightarrow> Shutdown [] s = Blocked) \<and>
   (\<exists>s'. Shutdown (active s) s = Returned s') \<and>
   (\<forall>exits s'. Shutdown exits s = Returned s' \<longrightarrow>
      listener s' = None \<and> (\<forall>l. listener s = Some l \<longrightarrow> l \<in> closed_listeners s') \<and>
      wg s' = 0 \<and> active s' = [] \<and> set (active s) \<subseteq> closed_conns s' \<and>
      (\<forall>rs. fst (accept_loop rs s') = Returned None))"
proof (intro conjI allI impI)
  assume inv: "wg s = int (length (active s))"
  show "closed_conns (closeListener s) = closed_conns s"
    by (simp add: closeListener_simps)
  show "Shutdown [] s = Blocked" if "active s \<noteq> []"
    using that inv by (simp add: Shutdown_def closeListener_simps)
  show "\<exists>s'. Shutdown (active s) s = Returned s'"
    unfolding Shutdown_def using inv
    by (intro Wait_all_exit) (simp_all add: closeListener_simps)
  fix exits s' assume "Shutdown exits s = Returned s'"
  then have w: "Wait exits (closeListener s) = Returned s'"
    by (simp add: Shutdown_def)
  from inv have "wg (closeListener s) = int (length (active (closeListener s)))"
    by (simp add: closeListener_simps)
  note r = Wait_Returned [OF w this]
  from r show "listener s' = None" "wg s' = 0" "active s' = []"
    by (simp_all add: closeListener_simps)
  from r show "set (active s) \<subseteq> closed_conns s'"
    by (simp add: closeListener_simps)
  show "l \<in> closed_listeners s'" if "listener s = Some l" for l
    using r that by (simp add: closeListener_simps)
  show "fst (accept_loop rs s') = Returned None" for rs
    using \<open>listener s' = None\<close> by (cases "(rs, s')" rule: accept_loop.cases) simp_all
qed

lemma serving_eq:
  "serving = (NewTCPServer '':8080'')\<lparr>listener := Some 1, wg := 1, active := [7]\<rparr>"
  by (simp add: serving_def Start_def NewTCPServer_def)

theorem Shutdown_waits_witness:
  "Shutdown [] serving = Blocked \<and>
   (\<exists>s'. Shutdown [7] serving = Returned s' \<and> listener s' = None \<and> 1 \<in> closed_listeners s' \<and>
      wg s' = 0 \<and> active s' = [] \<and> 7 \<in> closed_conns s' \<and>
      fst (accept_loop [Conn 8] s') = Returned None)"
proof -
  have inv: "wg serving = int (length (active serving))"
    by (simp add: serving_eq)
  have l: "listener serving = Some 1" and a: "active serving = [7]"
    by (simp_all add: serving_eq)
  note th = Shutdown_waits [OF inv]
  from th a have b: "Shutdown [] serving = Blocked" by simp
  from th a obtain s' where s': "Shutdown [7] serving = Returned s'"
    by auto
  from th s' have "listener s' = None \<and> (\<forall>l. listener serving = Some l \<longrightarrow> l \<in> closed_listeners s') \<and>
      wg s' = 0 \<and> active s' = [] \<and> set (active serving) \<subseteq> closed_conns s' \<and>
      (\<forall>rs. fst (accept_loop rs s') = Returned None)"
    by blast
  with l a have "listener s' = None \<and> 1 \<in> closed_listeners s' \<and>
      wg s' = 0 \<and> active s' = [] \<and> 7 \<in> closed_conns s' \<and>
      fst (accept_loop [Conn 8] s') = Returned None"
    by simp
  with b s' show ?thesis by blast
qed

text \<open>
  Claim C6 as it is stated fails with one connection being handled whose client
  stays: \<open>Shutdown\<close> is blocked, and the connection is still open and handled after the
  listener has been closed.
\<close>

theorem Shutdown_counterexample:
  "Shutdown [] serving = Blocked \<and>
   active (closeListener serving) = [7] \<and>
   closed_conns (closeListener serving) = {}"
  by (simp add: serving_eq Shutdown_def closeListener_def NewTCPServer_def)

section \<open>Heartbeat eviction\<close>

lemma hb_run_Nil: "hb_run [] s = s"
  by (simp add: hb_run_def)

lemma hb_run_Cons: "hb_run (e # evs) s = hb_run evs (hb_step s e)"
  by (simp add: hb_run_def)

lemma hb_run_append: "hb_run (xs @ ys) s = hb_run ys (hb_run xs s)"
  by (simp add: hb_run_def)

lemma silent_Cons: "silent c (e # evs) = (\<not> about c e \<and> silent c evs)"
  by (simp add: silent_def)

lemma silent_append: "silent c (xs @ ys) = (silent c xs \<and> silent c ys)"
  by (auto simp: silent_def list_ex_iff)

lemma connected_Cons: "connected c (e # evs) = (\<not> fails c e \<and> connected c evs)"
  by (simp add: connected_def)

lemma sweep_evicts:
  "listeners s c = Some ci \<Longrightarrow> now c - lastSeen ci > heartbeatTimeout \<Longrightarrow>
   listeners (heartbeatChecker_sweep now s) c = None \<and> c \<in> closed_hb (heartbeatChecker_sweep now s)"
  by (simp add: heartbeatChecker_sweep_def timed_out_def)

lemma sweep_keeps:
  "listeners s c = Some ci \<Longrightarrow> now c - lastSeen ci \<le> heartbeatTimeout \<Longrightarrow>
   listeners (heartbeatChecker_sweep now s) c = Some ci \<and>
   (c \<in> closed_hb (heartbeatChecker_sweep now s)) = (c \<in> closed_hb s)"
  by (simp add: heartbeatChecker_sweep_def timed_out_def)

lemma step_gone:
  "listeners s c = None \<Longrightarrow> c \<in> closed_hb s \<Longrightarrow> \<not> about c e \<Longrightarrow>
   listeners (hb_step s e) c = None \<and> c \<in> closed_hb (hb_step s e)"
  by (cases e)
    (auto simp: hb_register_def hb_read_data_def hb_read_error_def heartbeatChecker_sweep_def
      timed_out_def Let_def split: option.splits)

lemma run_gone:
  "listeners s c = None \<Longrightarrow> c \<in> closed_hb s \<Longrightarrow> silent c evs \<Longrightarrow>
   listeners (hb_run evs s) c = None \<and> c \<in> closed_hb (hb_run evs s)"
proof (induction evs arbitrary: s)
  case Nil
  then show ?case by (simp add: hb_run_Nil)
next
  case (Cons e evs)
  from Cons.prems have "\<not> about c e" "silent c evs"
    by (simp_all add: silent_Cons)
  with Cons.prems step_gone [of s c e] Cons.IH [of "hb_step s e"] show ?case
    by (simp add: hb_run_Cons)
qed

lemma step_silent:
  "listeners s c = Some ci \<Longrightarrow> \<not> about c e \<Longrightarrow>
   (listeners (hb_step s e) c = Some ci \<and> (c \<in> closed_hb (hb_step s e)) = (c \<in> closed_hb s)) \<or>
   (listeners (hb_step s e) c = None \<and> c \<in> closed_hb (hb_step s e))"
  by (cases e)
    (auto simp: hb_register_def hb_read_data_def hb_read_error_def heartbeatChecker_sweep_def
      timed_out_def Let_def split: option.splits)

lemma run_silent:
  "listeners s c = Some ci \<Longrightarrow> silent c evs \<Longrightarrow>
   listeners (hb_run evs s) c = Some ci \<or>
   (listeners (hb_run evs s) c = None \<and> c \<in> closed_hb (hb_run evs s))"
proof (induction evs arbitrary: s)
  case Nil
  then show ?case by (simp add: hb_run_Nil)
next
  case (Cons e evs)
  from Cons.prems have e: "\<not> about c e" and evs: "silent c evs"
    by (simp_all add: silent_Cons)
  from step_silent [OF Cons.prems(1) e] show ?case
  proof
    assume "listeners (hb_step s e) c = Some ci \<and> (c \<in> closed_hb (hb_step s e)) = (c \<in> closed_hb s)"
    then show ?thesis
      using Cons.IH [of "hb_step s e"] evs by (simp add: hb_run_Cons)
  next
    assume "listeners (hb_step s e) c = None \<and> c \<in> closed_hb (hb_step s e)"
    then show ?thesis
      using run_gone [of "hb_step s e" c evs] evs by (simp add: hb_run_Cons)
  qed
qed

lemma silent_evicted:
  assumes reg: "listeners s c = Some ci" and quiet: "silent c evs"
    and tick: "Tick now \<in> set evs" and old: "now c - lastSeen ci > heartbeatTimeout"
  shows "listeners (hb_run evs s) c = None \<and> c \<in> closed_hb (hb_run evs s)"
proof -
  from tick obtain pre post where evs: "evs = pre @ Tick now # post"
    by (auto dest: split_list)
  with quiet have pre: "silent c pre" and post: "silent c post"
    by (simp_all add: silent_append silent_Cons)
  have "listeners (hb_step (hb_run pre s) (Tick now)) c = None \<and>
      c \<in> closed_hb (hb_step (hb_run pre s) (Tick now))"
    using run_silent [OF reg pre]
  proof
    assume "listeners (hb_run pre s) c = Some ci"
    then show ?thesis using old by (simp add: sweep_evicts)
  next
    assume "listeners (hb_run pre s) c = None \<and> c \<in> closed_hb (hb_run pre s)"
    then show ?thesis using step_gone [of "hb_run pre s" c "Tick now"] by simp
  qed
  then show ?thesis
    using run_gone [of "hb_step (hb_run pre s) (Tick now)" c post] post
    by (simp add: evs hb_run_append hb_run_Cons)
qed

lemma tick_after_timeout:
  assumes "T0 \<le> t" and "t + heartbeatTimeout + heartbeatInterval \<le> h"
  shows "\<exists>k. 0 < k \<and> T0 + k * heartbeatInterval \<le> h \<and> t + heartbeatTimeout < T0 + k * heartbeatInterval"
proof -
  define x where "x = t + heartbeatTimeout - T0"
  define k where "k = x div heartbeatInterval + 1"
  have I: "0 < heartbeatInterval" by (simp add: heartbeatInterval_def)
  have "0 \<le> x" using assms(1) by (simp add: x_def heartbeatTimeout_def)
  then have "0 < k" using I by (simp add: k_def pos_imp_zdiv_nonneg_iff)
  have d: "x = x div heartbeatInterval * heartbeatInterval + x mod heartbeatInterval"
    by simp
  have m: "0 \<le> x mod heartbeatInterval" "x mod heartbeatInterval < heartbeatInterval"
    using I by simp_all
  have "k * heartbeatInterval = x div heartbeatInterval * heartbeatInterval + heartbeatInterval"
    by (simp add: k_def algebra_simps)
  with d m have "k * heartbeatInterval \<le> x + heartbeatInterval" "x < k * heartbeatInterval"
    by linarith+
  then have "T0 + k * heartbeatInterval \<le> h" "t + heartbeatTimeout < T0 + k * heartbeatInterval"
    using assms(2) by (simp_all add: x_def)
  with \<open>0 < k\<close> show ?thesis by blast
qed

lemma step_connected:
  "listeners s c = Some ci \<Longrightarrow> c \<notin> closed_hb s \<Longrightarrow> \<not> fails c e \<Longrightarrow>
   fresh_at_ticks c (lastSeen ci) (e # evs) \<Longrightarrow>
   \<exists>ci'. listeners (hb_step s e) c = Some ci' \<and> c \<notin> closed_hb (hb_step s e) \<and>
     fresh_at_ticks c (lastSeen ci') evs"
  by (cases e)
    (auto simp: hb_register_def hb_read_data_def hb_read_error_def heartbeatChecker_sweep_def
      timed_out_def Let_def split: option.splits if_splits)

lemma run_connected:
  "listeners s c = Some ci \<Longrightarrow> c \<notin> closed_hb s \<Longrightarrow> connected c evs \<Longrightarrow>
   fresh_at_ticks c (lastSeen ci) evs \<Longrightarrow>
   listeners (hb_run evs s) c \<noteq> None \<and> c \<notin> closed_hb (hb_run evs s)"
proof (induction evs arbitrary: s ci)
  case Nil
  then show ?case by (simp add: hb_run_Nil)
next
  case (Cons e evs)
  from Cons.prems(3) have e: "\<not> fails c e" and evs: "connected c evs"
    by (simp_all add: connected_Cons)
  from step_connected [OF Cons.prems(1,2) e Cons.prems(4)]
  obtain ci' where "listeners (hb_step s e) c = Some ci'" "c \<notin> closed_hb (hb_step s e)"
    "fresh_at_ticks c (lastSeen ci') evs"
    by blast
  from Cons.IH [OF this(1,2) evs this(3)] show ?case
    by (simp add: hb_run_Cons)
qed

text \<open>
  Claim C2. Let connection \<open>c\<close> be registered and last seen at \<open>lastSeen ci\<close>, the ticker
  having started at \<open>T0\<close> before that. If \<open>c\<close> then sends nothing while every tick up to
  a time \<open>h\<close>, which lies \<open>heartbeatTimeout + heartbeatInterval\<close> or more after the last
  data, has had its sweep, then \<open>c\<close> is out of the registry and closed. And if no read
  of \<open>c\<close> fails and at every sweep the last data of \<open>c\<close> is at most \<open>heartbeatTimeout\<close>
  old, then \<open>c\<close> stays registered and open: each read sets \<open>lastSeen\<close>, so the test of the
  sweep never holds for it.
\<close>

theorem heartbeat_eviction:
  "listeners s c = Some ci \<Longrightarrow>
   (silent c evs \<and> T0 \<le> lastSeen ci \<and> lastSeen ci + heartbeatTimeout + heartbeatInterval \<le> h \<and>
    (\<forall>k. 0 < k \<and> T0 + k * heartbeatInterval \<le> h \<longrightarrow>
       (\<exists>now. Tick now \<in> set evs \<and> T0 + k * heartbeatInterval \<le> now c)) \<longrightarrow>
      listeners (hb_run evs s) c = None \<and> c \<in> closed_hb (hb_run evs s)) \<and>
   (c \<notin> closed_hb s \<and> connected c evs' \<and> fresh_at_ticks c (lastSeen ci) evs' \<longrightarrow>
      listeners (hb_run evs' s) c \<noteq> None \<and> c \<notin> closed_hb (hb_run evs' s))"
proof (intro conjI impI)
  assume reg: "listeners s c = Some ci"
  assume a: "silent c evs \<and> T0 \<le> lastSeen ci \<and> lastSeen ci + heartbeatTimeout + heartbeatInterval \<le> h \<and>
    (\<forall>k. 0 < k \<and> T0 + k * heartbeatInterval \<le> h \<longrightarrow>
       (\<exists>now. Tick now \<in> set evs \<and> T0 + k * heartbeatInterval \<le> now c))"
  then obtain k where "0 < k" "T0 + k * heartbeatInterval \<le> h"
    "lastSeen ci + heartbeatTimeout < T0 + k * heartbeatInterval"
    using tick_after_timeout [of T0 "lastSeen ci" h] by blast
  with a obtain now where "Tick now \<in> set evs" "now c - lastSeen ci > heartbeatTimeout"
    by fastforce
  with reg a show "listeners (hb_run evs s) c = None" "c \<in> closed_hb (hb_run evs s)"
    using silent_evicted by blast+
next
  assume reg: "listeners s c = Some ci"
  assume "c \<notin> closed_hb s \<and> connected c evs' \<and> fresh_at_ticks c (lastSeen ci) evs'"
  with reg run_connected [of s c ci evs']
  show "listeners (hb_run evs' s) c \<noteq> None" "c \<notin> closed_hb (hb_run evs' s)"
    by blast+
qed

theorem heartbeat_eviction_witness:
  "listeners (hb_run ticks_only one_client) 1 = None \<and>
   1 \<in> closed_hb (hb_run ticks_only one_client) \<and>
   listeners (hb_run ticks_and_ping one_client) 1 \<noteq> None \<and>
   1 \<notin> closed_hb (hb_run ticks_and_ping one_client)"
proof -
  let ?ci = "\<lparr>lastSeen = 0, isActive = True\<rparr>"
  have reg: "listeners one_client 1 = Some ?ci"
    by (simp add: one_client_def hb_register_def)
  have tick: "Tick (\<lambda>c. 120000000000) \<in> set ticks_only"
    by (simp add: ticks_only_def)
  have quiet: "silent 1 ticks_only"
    by (simp add: silent_def ticks_only_def)
  have long: "0 \<le> lastSeen ?ci \<and> lastSeen ?ci + heartbeatTimeout + heartbeatInterval \<le> 120000000000"
    by (simp add: heartbeatTimeout_def heartbeatInterval_def)
  have ticks: "\<forall>k. 0 < k \<and> 0 + k * heartbeatInterval \<le> 120000000000 \<longrightarrow>
         (\<exists>now. Tick now \<in> set ticks_only \<and> 0 + k * heartbeatInterval \<le> now (1::nat))"
  proof (intro allI impI)
    fix k :: int assume "0 < k \<and> 0 + k * heartbeatInterval \<le> 120000000000"
    with tick show "\<exists>now. Tick now \<in> set ticks_only \<and> 0 + k * heartbeatInterval \<le> now (1::nat)"
      by (intro exI [of _ "\<lambda>c. 120000000000"]) simp
  qed
  from quiet long ticks
  have a: "silent 1 ticks_only \<and> 0 \<le> lastSeen ?ci \<and>
      lastSeen ?ci + heartbeatTimeout + heartbeatInterval \<le> 120000000000 \<and>
      (\<forall>k. 0 < k \<and> 0 + k * heartbeatInterval \<le> 120000000000 \<longrightarrow>
         (\<exists>now. Tick now \<in> set ticks_only \<and> 0 + k * heartbeatInterval \<le> now (1::nat)))"
    by blast
  have b: "1 \<notin> closed_hb one_client \<and> connected 1 ticks_and_ping \<and>
      fresh_at_ticks 1 (lastSeen ?ci) ticks_and_ping"
    by (simp add: one_client_def hb_register_def NewHeartbeatServer_def connected_def
        ticks_and_ping_def heartbeatTimeout_def)
  note th = heartbeat_eviction [OF reg, where evs = ticks_only and ?T0.0 = 0 and h = 120000000000
      and evs' = ticks_and_ping]
  from th [THEN conjunct1, THEN mp, OF a] th [THEN conjunct2, THEN mp, OF b]
  show ?thesis by simp
qed

end
